theory Spec2Isabelle
  imports Main "HOL-Library.Word" "HOL-Library.Sublist"
begin

section \<open>tinydns: the resolution pipeline of \<^verbatim>\<open>tinydns.go\<close>\<close>

text \<open>
  A shallow embedding of the handler of \<^verbatim>\<open>src/tinydns.go\<close> (the version with YAML rules,
  retries and fallback answers, lines 81--618 of the file), of \<^verbatim>\<open>src/type.go\<close>,
  \<^verbatim>\<open>src/option.go\<close> and the rule type of \<^verbatim>\<open>src/config.go\<close>.

  Go strings are byte strings and are modelled as \<open>string\<close>; \<open>uint16\<close> and \<open>uint32\<close> are
  \<open>16 word\<close> and \<open>32 word\<close>; Go's \<open>int\<close> and \<open>time.Duration\<close> are \<open>int\<close> (no arithmetic
  of the handler can overflow: the only arithmetic is the attempt counter, bounded by the
  retry count). A slice is a list, \<open>nil\<close> and the empty slice both \<open>[]\<close>.
\<close>

subsection \<open>Data model (\<^verbatim>\<open>type.go\<close>, \<^verbatim>\<open>config.go\<close>, \<^verbatim>\<open>option.go\<close>)\<close>

type_synonym bytes = "8 word list"

text \<open>\<open>net.IP\<close> is a byte slice; \<open>nil\<close> (what \<open>net.ParseIP\<close> returns on bad text) is \<open>[]\<close>.\<close>

type_synonym ip = "8 word list"

text \<open>A Go \<open>error\<close> value is its message; \<open>nil\<close> is \<open>None\<close>.\<close>

type_synonym go_error = "string option"

record MXRecord =
  MX_Priority :: "16 word"
  MX_Target :: string

record SRVRecord =
  SRV_Priority :: "16 word"
  SRV_Weight :: "16 word"
  SRV_Port :: "16 word"
  SRV_Target :: string

record DnsRecord =
  A :: "string list"
  AAAA :: "string list"
  MX :: "MXRecord list"
  TXT :: "string list"
  CNAME :: string
  NS :: "string list"
  PTR :: "string list"
  SRV :: "SRVRecord list"

text \<open>\<open>&DnsRecord{}\<close>: every field at its zero value.\<close>

definition emptyDnsRecord :: DnsRecord where
  "emptyDnsRecord =
     \<lparr>A = [], AAAA = [], MX = [], TXT = [], CNAME = [], NS = [], PTR = [], SRV = []\<rparr>"

text \<open>The rule type \<open>DNSRecord\<close> of \<^verbatim>\<open>config.go\<close>, and \<open>DNSConfig\<close> (its rule list).\<close>

record DNSRecord =
  Domain :: string
  Type :: string
  Value :: string
  Values :: "string list"
  TTL :: "32 word"
  Priority :: "16 word"
  Weight :: "16 word"
  Port :: "16 word"
  Target :: string
  Action :: string

record DNSConfig =
  Records :: "DNSRecord list"

text \<open>
  \<open>Options\<close> of \<^verbatim>\<open>option.go\<close>. The values of \<open>DnsRecords\<close> are pointers in the source; they
  are taken to be non-nil (a nil pointer stored in the map is not modelled).
\<close>

record Options =
  ListenAddress :: string
  Net :: string
  UpstreamServers :: "string list"
  DnsRecords :: "string \<rightharpoonup> DnsRecord"
  DiskCache :: bool
  UseDiskCache :: bool
  Opt_TTL :: int
  ConfigFile :: string
  UpstreamTimeout :: int
  UpstreamRetries :: int
  FallbackResponse :: bool
  DefaultA :: string
  DefaultAAAA :: string

subsection \<open>DNS messages (the part of \<^verbatim>\<open>github.com/miekg/dns\<close> the handler touches)\<close>

record Question =
  Name :: string
  Qtype :: "16 word"
  Qclass :: "16 word"

record RR_Header =
  Hdr_Name :: string
  Rrtype :: "16 word"
  Class :: "16 word"
  Ttl :: "32 word"

text \<open>
  An answer record is one of the eight kinds the handler builds and extracts
  (\<open>*dns.A\<close>, \<open>*dns.AAAA\<close>, ...), or any other kind, of which only the header matters.
\<close>

datatype RR =
    dns_A RR_Header ip
  | dns_AAAA RR_Header ip
  | dns_MX RR_Header "16 word" string
  | dns_TXT RR_Header "string list"
  | dns_SRV RR_Header "16 word" "16 word" "16 word" string
  | dns_CNAME RR_Header string
  | dns_NS RR_Header string
  | dns_PTR RR_Header string
  | dns_Other RR_Header

fun Hdr :: "RR \<Rightarrow> RR_Header" where
  "Hdr (dns_A h _) = h"
| "Hdr (dns_AAAA h _) = h"
| "Hdr (dns_MX h _ _) = h"
| "Hdr (dns_TXT h _) = h"
| "Hdr (dns_SRV h _ _ _ _) = h"
| "Hdr (dns_CNAME h _) = h"
| "Hdr (dns_NS h _) = h"
| "Hdr (dns_PTR h _) = h"
| "Hdr (dns_Other h) = h"

record Msg =
  Id :: "16 word"
  Response :: bool
  Opcode :: int
  Authoritative :: bool
  Truncated :: bool
  RecursionDesired :: bool
  RecursionAvailable :: bool
  Zero :: bool
  AuthenticatedData :: bool
  CheckingDisabled :: bool
  Rcode :: int
  Compress :: bool
  Question :: "Question list"
  Answer :: "RR list"
  Ns :: "RR list"
  Extra :: "RR list"

text \<open>The record type numbers and the class of RFC 1035, as \<open>dns.TypeA\<close>, ... name them.\<close>

definition TypeA :: "16 word" where "TypeA = 1"
definition TypeNS :: "16 word" where "TypeNS = 2"
definition TypeCNAME :: "16 word" where "TypeCNAME = 5"
definition TypePTR :: "16 word" where "TypePTR = 12"
definition TypeMX :: "16 word" where "TypeMX = 15"
definition TypeTXT :: "16 word" where "TypeTXT = 16"
definition TypeAAAA :: "16 word" where "TypeAAAA = 28"
definition TypeSRV :: "16 word" where "TypeSRV = 33"
definition ClassINET :: "16 word" where "ClassINET = 1"
definition OpcodeQuery :: int where "OpcodeQuery = 0"
definition RcodeSuccess :: int where "RcodeSuccess = 0"

lemmas dns_types =
  TypeA_def TypeNS_def TypeCNAME_def TypePTR_def TypeMX_def TypeTXT_def TypeAAAA_def
  TypeSRV_def

text \<open>\<open>new(dns.Msg)\<close>: the zero message.\<close>

definition new_Msg :: Msg where
  "new_Msg =
     \<lparr>Id = 0, Response = False, Opcode = 0, Authoritative = False, Truncated = False,
      RecursionDesired = False, RecursionAvailable = False, Zero = False,
      AuthenticatedData = False, CheckingDisabled = False, Rcode = 0, Compress = False,
      Question = [], Answer = [], Ns = [], Extra = []\<rparr>"

text \<open>
  \<open>(*dns.Msg).SetReply\<close> of the library (v1.1.62, the version \<^verbatim>\<open>go.mod\<close> pins): it copies
  the id and the opcode, sets the response bit and the success code, copies the
  recursion-desired and checking-disabled bits of a standard query, and keeps the first
  question. It does not touch the authoritative bit, which is why the builders below set
  it themselves.
\<close>

definition SetReply :: "Msg \<Rightarrow> Msg \<Rightarrow> Msg" where
  "SetReply m request =
     (let m1 = m\<lparr>Id := Id request, Response := True, Opcode := Opcode request\<rparr>;
          m2 = (if Opcode m1 = OpcodeQuery
                then m1\<lparr>RecursionDesired := RecursionDesired request,
                        CheckingDisabled := CheckingDisabled request\<rparr>
                else m1);
          m3 = m2\<lparr>Rcode := RcodeSuccess\<rparr>
      in case Question request of
           [] \<Rightarrow> m3
         | q # _ \<Rightarrow> m3\<lparr>Question := [q]\<rparr>)"

subsection \<open>The library functions the handler calls\<close>

text \<open>
  The handler calls into the Go standard library and \<^verbatim>\<open>miekg/dns\<close>; these functions are
  parameters of the model, collected in one record:
  \<^item> \<open>ParseIP\<close> is \<open>net.ParseIP\<close>, \<open>IP_String\<close> is \<open>net.IP.String\<close>;
  \<^item> \<open>TypeToString\<close> is the table \<open>dns.TypeToString\<close>, read with Go's map indexing
    (the empty string for a number the table lacks);
  \<^item> \<open>gobEncode\<close> and \<open>gobDecode\<close> are \<open>gob.NewEncoder(..).Encode\<close> and
    \<open>gob.NewDecoder(..).Decode\<close> on a \<open>DnsRecord\<close>; \<open>None\<close> is an error return.
\<close>

record lib =
  ParseIP :: "string \<Rightarrow> ip"
  IP_String :: "ip \<Rightarrow> string"
  TypeToString :: "16 word \<Rightarrow> string"
  gobEncode :: "DnsRecord \<Rightarrow> bytes option"
  gobDecode :: "bytes \<Rightarrow> DnsRecord option"

subsection \<open>\<open>matchesDomain\<close>\<close>

text \<open>\<open>strings.HasPrefix\<close>, \<open>strings.HasSuffix\<close>, \<open>strings.TrimPrefix\<close>, \<open>strings.TrimSuffix\<close>.\<close>

definition HasPrefix :: "string \<Rightarrow> string \<Rightarrow> bool" where
  "HasPrefix s p = (length p \<le> length s \<and> take (length p) s = p)"

definition HasSuffix :: "string \<Rightarrow> string \<Rightarrow> bool" where
  "HasSuffix s x = (length x \<le> length s \<and> drop (length s - length x) s = x)"

definition TrimPrefix :: "string \<Rightarrow> string \<Rightarrow> string" where
  "TrimPrefix s p = (if HasPrefix s p then drop (length p) s else s)"

definition TrimSuffix :: "string \<Rightarrow> string \<Rightarrow> string" where
  "TrimSuffix s x = (if HasSuffix s x then take (length s - length x) s else s)"

definition matchesDomain :: "string \<Rightarrow> string \<Rightarrow> bool" where
  "matchesDomain query pattern =
     (if pattern = ''*'' then True
      else if HasPrefix pattern ''*.'' then
        (let suffix = TrimPrefix pattern ''*'' in HasSuffix query suffix)
      else query = pattern)"

subsection \<open>Effects\<close>

text \<open>
  The handler acts on its surroundings only through a few calls. Each becomes an event,
  named after the program point that emits it; a run of the handler is the list of its
  events in program order, together with the handler's new state:
  \<^item> \<open>Log\<close>: a \<open>logToFile\<close> call (with the \<open>gologger\<close> call beside it, where there is
    one); the line is kept as its format and arguments, without the elapsed time;
  \<^item> \<open>RuleCheck\<close>: one iteration of the loop over \<open>t.config.Records\<close> (line 231);
  \<^item> \<open>MemoryLookup\<close>: the read \<open>t.options.DnsRecords[domainLookup]\<close> (line 264);
  \<^item> \<open>WildcardLookup\<close>: the read \<open>t.options.DnsRecords["*"]\<close> (line 273);
  \<^item> \<open>CacheGet\<close>: \<open>t.hm.Get\<close> (line 283); \<open>CacheSet\<close>: \<open>t.hm.Set\<close> (line 335);
  \<^item> \<open>Exchange\<close>: \<open>client.Exchange\<close> (line 323) with the attempt, the server and what the
    call returned;
  \<^item> \<open>Sleep\<close>: \<open>time.Sleep\<close> (line 347), in nanoseconds as \<open>time.Duration\<close> counts;
  \<^item> \<open>WriteMsg\<close>: \<open>w.WriteMsg\<close>;
  \<^item> \<open>Panic\<close>: a run-time panic (an index out of range), which ends the run.
\<close>

datatype reason = no_upstream_servers | upstream_failed go_error

datatype source =
    from_config | from_memory | from_wildcard | from_cache
  | from_upstream string nat
  | fallback_response reason
  | empty_response reason

datatype logline =
    REQUEST string string int string
  | RESPONSE string string source
  | FORWARD string string string string int int
  | ERROR_upstream string string string go_error
  | ERROR_all_failed string string int go_error
  | CACHE_saved string string

datatype event =
    Log logline
  | RuleCheck DNSRecord
  | MemoryLookup string
  | WildcardLookup
  | CacheGet string
  | CacheSet string bytes
  | Exchange int string "Msg option \<times> go_error"
  | Sleep int
  | WriteMsg Msg
  | Panic

text \<open>
  What the handler cannot decide itself: the server \<open>sliceutil.PickRandom\<close> draws at each
  attempt, and what \<open>client.Exchange\<close> returns at each attempt from the server asked (the
  message, possibly \<open>nil\<close>, and the error, possibly \<open>nil\<close>).
\<close>

record env =
  PickRandom :: "int \<Rightarrow> string list \<Rightarrow> string"
  exchange :: "int \<Rightarrow> string \<Rightarrow> Msg option \<times> go_error"

text \<open>
  The handler \<open>TinyDNS\<close>: its options, the loaded rules (\<open>nil\<close> without a rule file) and
  the key-value store \<open>hm\<close> behind the cache, read with \<open>Get\<close> and written with \<open>Set\<close>.
\<close>

record TinyDNS =
  options :: Options
  hm :: "string \<rightharpoonup> bytes"
  config :: "DNSConfig option"

definition Millisecond :: int where
  "Millisecond = 1000000"

subsection \<open>Building responses\<close>

definition createResponseFromConfig ::
    "lib \<Rightarrow> TinyDNS \<Rightarrow> Msg \<Rightarrow> string \<Rightarrow> DNSRecord \<Rightarrow> 16 word \<Rightarrow> Msg" where
  "createResponseFromConfig L t r domain record' qtype =
     (let msg = (SetReply new_Msg r)\<lparr>Authoritative := True\<rparr>;
          hdr = (\<lambda>ty. \<lparr>Hdr_Name = domain, Rrtype = ty, Class = ClassINET, Ttl = TTL record'\<rparr>)
      in if qtype = TypeA then
           msg\<lparr>Answer := Answer msg
             @ (if Value record' \<noteq> [] then [dns_A (hdr TypeA) (ParseIP L (Value record'))] else [])
             @ map (\<lambda>ip. dns_A (hdr TypeA) (ParseIP L ip)) (Values record')\<rparr>
         else if qtype = TypeAAAA then
           msg\<lparr>Answer := Answer msg
             @ (if Value record' \<noteq> [] then [dns_AAAA (hdr TypeAAAA) (ParseIP L (Value record'))] else [])
             @ map (\<lambda>ip. dns_AAAA (hdr TypeAAAA) (ParseIP L ip)) (Values record')\<rparr>
         else if qtype = TypeMX then
           msg\<lparr>Answer := Answer msg @ [dns_MX (hdr TypeMX) (Priority record') (Target record')]\<rparr>
         else if qtype = TypeTXT then
           msg\<lparr>Answer := Answer msg @ [dns_TXT (hdr TypeTXT) [Value record']]\<rparr>
         else if qtype = TypeSRV then
           msg\<lparr>Answer := Answer msg
             @ [dns_SRV (hdr TypeSRV) (Priority record') (Weight record') (Port record')
                  (Target record')]\<rparr>
         else if qtype = TypeCNAME then
           msg\<lparr>Answer := Answer msg @ [dns_CNAME (hdr TypeCNAME) (Value record')]\<rparr>
         else if qtype = TypeNS then
           msg\<lparr>Answer := Answer msg @ [dns_NS (hdr TypeNS) (Value record')]\<rparr>
         else if qtype = TypePTR then
           msg\<lparr>Answer := Answer msg @ [dns_PTR (hdr TypePTR) (Value record')]\<rparr>
         else msg)"

definition createResponseFromDnsRecord ::
    "lib \<Rightarrow> TinyDNS \<Rightarrow> Msg \<Rightarrow> string \<Rightarrow> DnsRecord \<Rightarrow> 16 word \<Rightarrow> Msg" where
  "createResponseFromDnsRecord L t r domain dnsRecord qtype =
     (let msg = (SetReply new_Msg r)\<lparr>Authoritative := True\<rparr>;
          hdr = (\<lambda>ty. \<lparr>Hdr_Name = domain, Rrtype = ty, Class = ClassINET, Ttl = 60\<rparr>)
      in if qtype = TypeA then
           msg\<lparr>Answer := Answer msg
             @ map (\<lambda>a. dns_A (hdr TypeA) (ParseIP L a)) (A dnsRecord)\<rparr>
         else if qtype = TypeAAAA then
           msg\<lparr>Answer := Answer msg
             @ map (\<lambda>aaaa. dns_AAAA (hdr TypeAAAA) (ParseIP L aaaa)) (AAAA dnsRecord)\<rparr>
         else if qtype = TypeMX then
           msg\<lparr>Answer := Answer msg
             @ map (\<lambda>mx. dns_MX (hdr TypeMX) (MX_Priority mx) (MX_Target mx)) (MX dnsRecord)\<rparr>
         else if qtype = TypeTXT then
           msg\<lparr>Answer := Answer msg
             @ map (\<lambda>txt. dns_TXT (hdr TypeTXT) [txt]) (TXT dnsRecord)\<rparr>
         else if qtype = TypeSRV then
           msg\<lparr>Answer := Answer msg
             @ map (\<lambda>srv. dns_SRV (hdr TypeSRV) (SRV_Priority srv) (SRV_Weight srv)
                            (SRV_Port srv) (SRV_Target srv)) (SRV dnsRecord)\<rparr>
         else if qtype = TypeCNAME then
           (if CNAME dnsRecord \<noteq> [] then
              msg\<lparr>Answer := Answer msg @ [dns_CNAME (hdr TypeCNAME) (CNAME dnsRecord)]\<rparr>
            else msg)
         else if qtype = TypeNS then
           msg\<lparr>Answer := Answer msg @ map (\<lambda>ns. dns_NS (hdr TypeNS) ns) (NS dnsRecord)\<rparr>
         else if qtype = TypePTR then
           msg\<lparr>Answer := Answer msg @ map (\<lambda>ptr. dns_PTR (hdr TypePTR) ptr) (PTR dnsRecord)\<rparr>
         else msg)"

text \<open>
  \<open>extractDnsRecord\<close>: one pass over the answer section, each record added to the field
  of its kind; \<open>strings.Join(rr.Txt, "")\<close> is \<open>concat\<close>; a later \<open>CNAME\<close> replaces an
  earlier one; a record of any other kind is skipped. The header, and the TTL in it, is
  not read.
\<close>

fun extractStep :: "lib \<Rightarrow> DnsRecord \<Rightarrow> RR \<Rightarrow> DnsRecord" where
  "extractStep L d (dns_A h a) = d\<lparr>A := A d @ [IP_String L a]\<rparr>"
| "extractStep L d (dns_AAAA h a) = d\<lparr>AAAA := AAAA d @ [IP_String L a]\<rparr>"
| "extractStep L d (dns_MX h preference mx) =
     d\<lparr>MX := MX d @ [\<lparr>MX_Priority = preference, MX_Target = mx\<rparr>]\<rparr>"
| "extractStep L d (dns_TXT h txt) = d\<lparr>TXT := TXT d @ [concat txt]\<rparr>"
| "extractStep L d (dns_SRV h priority weight port target) =
     d\<lparr>SRV := SRV d @ [\<lparr>SRV_Priority = priority, SRV_Weight = weight, SRV_Port = port,
                          SRV_Target = target\<rparr>]\<rparr>"
| "extractStep L d (dns_CNAME h target) = d\<lparr>CNAME := target\<rparr>"
| "extractStep L d (dns_NS h ns) = d\<lparr>NS := NS d @ [ns]\<rparr>"
| "extractStep L d (dns_PTR h ptr) = d\<lparr>PTR := PTR d @ [ptr]\<rparr>"
| "extractStep L d (dns_Other h) = d"

definition extractDnsRecord :: "lib \<Rightarrow> Msg \<Rightarrow> DnsRecord" where
  "extractDnsRecord L msg = foldl (extractStep L) emptyDnsRecord (Answer msg)"

subsection \<open>\<open>sendFallbackOrEmpty\<close>\<close>

definition sendFallbackOrEmpty ::
    "lib \<Rightarrow> TinyDNS \<Rightarrow> Msg \<Rightarrow> string \<Rightarrow> string \<Rightarrow> reason \<Rightarrow> event list" where
  "sendFallbackOrEmpty L t r domainLookup recordType reason' =
     (let msg = SetReply new_Msg r in
      case Question r of
        q # _ \<Rightarrow>
          if FallbackResponse (options t) then
            (let domain = Name q;
                 qtype = Qtype q;
                 msg' =
                   (if qtype = TypeA then
                      (if DefaultA (options t) \<noteq> [] then
                         msg\<lparr>Answer := Answer msg
                           @ [dns_A \<lparr>Hdr_Name = domain, Rrtype = TypeA, Class = ClassINET, Ttl = 0\<rparr>
                                (ParseIP L (DefaultA (options t)))]\<rparr>
                       else msg)
                    else if qtype = TypeAAAA then
                      (if DefaultAAAA (options t) \<noteq> [] then
                         msg\<lparr>Answer := Answer msg
                           @ [dns_AAAA
                                \<lparr>Hdr_Name = domain, Rrtype = TypeAAAA, Class = ClassINET, Ttl = 0\<rparr>
                                (ParseIP L (DefaultAAAA (options t)))]\<rparr>
                       else msg)
                    else msg)
             in [Log (RESPONSE recordType domainLookup
                        (if length (Answer msg') > 0 then fallback_response reason'
                         else empty_response reason')),
                 WriteMsg msg'])
          else [Log (RESPONSE recordType domainLookup (empty_response reason')), WriteMsg msg]
      | [] \<Rightarrow> [Log (RESPONSE recordType domainLookup (empty_response reason')), WriteMsg msg])"

subsection \<open>\<open>forwardToUpstream\<close>\<close>

text \<open>An attempt succeeds when \<open>err == nil && msg != nil\<close>; then \<open>msg\<close> is the answer.\<close>

fun succeeded :: "Msg option \<times> go_error \<Rightarrow> Msg option" where
  "succeeded (msg, None) = msg"
| "succeeded (msg, Some e) = None"

text \<open>
  The body of a successful attempt, after the exchange (lines 325--339): the upstream
  message is written as it is, then stored when the cache is on and the message has an
  answer. \<open>r.Question[0]\<close> is read only there, after the encoding.
\<close>

definition upstreamSuccess ::
    "lib \<Rightarrow> TinyDNS \<Rightarrow> Msg \<Rightarrow> string \<Rightarrow> string \<Rightarrow> string \<Rightarrow> Msg \<Rightarrow> TinyDNS \<times> event list" where
  "upstreamSuccess L t r domainLookup recordType upstreamServer msg =
     (let wrote = [WriteMsg msg,
                   Log (RESPONSE recordType domainLookup
                          (from_upstream upstreamServer (length (Answer msg))))]
      in if UseDiskCache (options t) \<and> length (Answer msg) > 0 then
           (let dnsRecord = extractDnsRecord L msg in
            case gobEncode L dnsRecord of
              Some dnsRecordBytes \<Rightarrow>
                (case Question r of
                   q # _ \<Rightarrow>
                     (t\<lparr>hm := (hm t)(Name q @ recordType \<mapsto> dnsRecordBytes)\<rparr>,
                      wrote @ [CacheSet (Name q @ recordType) dnsRecordBytes,
                               Log (CACHE_saved recordType domainLookup)])
                 | [] \<Rightarrow> (t, wrote @ [Panic]))
            | None \<Rightarrow> (t, wrote))
         else (t, wrote))"

text \<open>
  The retry loop (lines 319--349) from \<open>attempt\<close> on, and what follows it when every
  attempt has failed (lines 351--357). \<open>lastErr\<close> is the loop's variable of that name.
\<close>

function upstreamLoop ::
    "lib \<Rightarrow> env \<Rightarrow> TinyDNS \<Rightarrow> Msg \<Rightarrow> string \<Rightarrow> string \<Rightarrow> string \<Rightarrow> int \<Rightarrow> int \<Rightarrow> go_error
       \<Rightarrow> TinyDNS \<times> event list" where
  "upstreamLoop L E t r domainLookup clientIP recordType retries attempt lastErr =
     (if attempt < retries then
        (let upstreamServer = PickRandom E attempt (UpstreamServers (options t));
             res = exchange E attempt upstreamServer;
             asked = [Log (FORWARD recordType domainLookup upstreamServer clientIP
                             (attempt + 1) retries),
                      Exchange attempt upstreamServer res]
         in case succeeded res of
              Some msg \<Rightarrow>
                (let (t', tr) = upstreamSuccess L t r domainLookup recordType upstreamServer msg
                 in (t', asked @ tr))
            | None \<Rightarrow>
                (let (t', tr) =
                       upstreamLoop L E t r domainLookup clientIP recordType retries
                         (attempt + 1) (snd res)
                 in (t', asked
                       @ [Log (ERROR_upstream recordType domainLookup upstreamServer (snd res))]
                       @ (if attempt < retries - 1 then [Sleep (100 * Millisecond)] else [])
                       @ tr)))
      else
        (t, [Log (ERROR_all_failed recordType domainLookup retries lastErr)]
            @ sendFallbackOrEmpty L t r domainLookup recordType (upstream_failed lastErr)))"
  by pat_completeness auto
termination
  by (relation "measure (\<lambda>(L, E, t, r, domainLookup, clientIP, recordType, retries, attempt,
                           lastErr). nat (retries - attempt))") auto

definition forwardToUpstream ::
    "lib \<Rightarrow> env \<Rightarrow> TinyDNS \<Rightarrow> Msg \<Rightarrow> string \<Rightarrow> string \<Rightarrow> string \<Rightarrow> TinyDNS \<times> event list" where
  "forwardToUpstream L E t r domainLookup clientIP recordType =
     (if length (UpstreamServers (options t)) = 0 then
        (t, sendFallbackOrEmpty L t r domainLookup recordType no_upstream_servers)
      else
        (let retries = (if UpstreamRetries (options t) \<le> 0 then 1
                        else UpstreamRetries (options t))
         in upstreamLoop L E t r domainLookup clientIP recordType retries 0 None))"

subsection \<open>\<open>handleDNSQuery\<close> and \<open>ServeDNS\<close>\<close>

text \<open>Running \<open>f\<close> after the events \<open>evs\<close> have happened.\<close>

definition after :: "event list \<Rightarrow> TinyDNS \<times> event list \<Rightarrow> TinyDNS \<times> event list" where
  "after evs res = (fst res, evs @ snd res)"

definition handleDNSQuery ::
    "lib \<Rightarrow> env \<Rightarrow> TinyDNS \<Rightarrow> Msg \<Rightarrow> string \<Rightarrow> string \<Rightarrow> string \<Rightarrow> 16 word
       \<Rightarrow> TinyDNS \<times> event list" where
  "handleDNSQuery L E t r domainLookup clientIP recordType qtype =
     (case Question r of
        [] \<Rightarrow> (t, [Panic])
      | q # _ \<Rightarrow>
          (let domain = Name q in
           case DnsRecords (options t) domainLookup of
             Some dnsRecord \<Rightarrow>
               (t, [MemoryLookup domainLookup,
                    WriteMsg (createResponseFromDnsRecord L t r domain dnsRecord qtype),
                    Log (RESPONSE recordType domainLookup from_memory)])
           | None \<Rightarrow>
               after [MemoryLookup domainLookup]
                 (case DnsRecords (options t) ''*'' of
                    Some dnsRecord \<Rightarrow>
                      (t, [WildcardLookup,
                           WriteMsg (createResponseFromDnsRecord L t r domain dnsRecord qtype),
                           Log (RESPONSE recordType domainLookup from_wildcard)])
                  | None \<Rightarrow>
                      after [WildcardLookup]
                        (if UseDiskCache (options t) then
                           after [CacheGet (domain @ recordType)]
                             (case hm t (domain @ recordType) of
                                Some dnsRecordBytes \<Rightarrow>
                                  (case gobDecode L dnsRecordBytes of
                                     Some dnsRecord \<Rightarrow>
                                       (t, [WriteMsg (createResponseFromDnsRecord L t r domain
                                                        dnsRecord qtype),
                                            Log (RESPONSE recordType domainLookup from_cache)])
                                   | None \<Rightarrow>
                                       forwardToUpstream L E t r domainLookup clientIP
                                         recordType)
                              | None \<Rightarrow>
                                  forwardToUpstream L E t r domainLookup clientIP recordType)
                         else forwardToUpstream L E t r domainLookup clientIP recordType))))"

text \<open>
  The loop over the rules (lines 231--247): the rules it looked at, and the run of the
  first rule that matches (\<open>None\<close> when the loop reaches its end without a \<open>return\<close>).
  \<open>createResponseFromConfig\<close> never returns \<open>nil\<close>, so the test \<open>msg != nil\<close> of
  line 240 always passes and a matching rule always ends the handler.
\<close>

fun rulesLoop ::
    "lib \<Rightarrow> env \<Rightarrow> TinyDNS \<Rightarrow> Msg \<Rightarrow> Question \<Rightarrow> string \<Rightarrow> string \<Rightarrow> string \<Rightarrow> DNSRecord list
       \<Rightarrow> event list \<times> (TinyDNS \<times> event list) option" where
  "rulesLoop L E t r question domainLookup clientIP recordType [] = ([], None)"
| "rulesLoop L E t r question domainLookup clientIP recordType (record' # rest) =
     (if matchesDomain domainLookup (Domain record') \<and> Type record' = recordType then
        ([RuleCheck record'],
         Some (if Action record' = ''forward'' then
                 forwardToUpstream L E t r domainLookup clientIP recordType
               else
                 (t, [WriteMsg (createResponseFromConfig L t r (Name question) record'
                                  (Qtype question)),
                      Log (RESPONSE recordType domainLookup from_config)])))
      else
        (let (evs, res) = rulesLoop L E t r question domainLookup clientIP recordType rest
         in (RuleCheck record' # evs, res)))"

text \<open>The kinds the \<open>switch\<close> of line 252 hands to \<open>handleDNSQuery\<close>.\<close>

definition supported :: "16 word \<Rightarrow> bool" where
  "supported qtype =
     (qtype = TypeA \<or> qtype = TypeAAAA \<or> qtype = TypeMX \<or> qtype = TypeTXT \<or> qtype = TypeSRV
      \<or> qtype = TypeCNAME \<or> qtype = TypeNS \<or> qtype = TypePTR)"

definition ServeDNS :: "lib \<Rightarrow> env \<Rightarrow> TinyDNS \<Rightarrow> string \<Rightarrow> Msg \<Rightarrow> TinyDNS \<times> event list" where
  "ServeDNS L E t clientIP r =
     (case Question r of
        [] \<Rightarrow> (t, [])
      | question # _ \<Rightarrow>
          (let domain = Name question;
               domainLookup = TrimSuffix domain ''.'';
               recordType = TypeToString L (Qtype question);
               request = [Log (REQUEST recordType domainLookup (Opcode r) clientIP)];
               (scanned, done) =
                 (case config t of
                    None \<Rightarrow> ([], None)
                  | Some c \<Rightarrow>
                      rulesLoop L E t r question domainLookup clientIP recordType (Records c))
           in after (request @ scanned)
                (case done of
                   Some res \<Rightarrow> res
                 | None \<Rightarrow>
                     if supported (Qtype question) then
                       handleDNSQuery L E t r domainLookup clientIP recordType (Qtype question)
                     else forwardToUpstream L E t r domainLookup clientIP recordType)))"

text \<open>The messages a run writes to the client, in order.\<close>

fun written :: "event list \<Rightarrow> Msg list" where
  "written [] = []"
| "written (WriteMsg m # evs) = m # written evs"
| "written (_ # evs) = written evs"

subsection \<open>The serializer behind the cache\<close>

text \<open>
  Modelled from the spec: the serializer of a cache entry (the specification's
  ``serialized AnswerSet''), which the handler calls as \<open>gob.NewEncoder(..).Encode\<close> and
  \<open>gob.NewDecoder(..).Decode\<close>. It is Go's \<^verbatim>\<open>encoding/gob\<close>, whose code is not among the
  repository's sources; the definitions follow the wire format that the documentation of
  that package lays down:
  \<^item> an unsigned integer below 128 is one byte; a larger one is its minimal big-endian
    bytes after a byte that holds their count, negated; a decoder refuses a count above 8;
  \<^item> a signed integer is sent as an unsigned one, the value shifted left by one bit, with
    the lowest bit saying that the value is to be complemented;
  \<^item> a string is its length and its bytes; a slice is its length and its elements, each
    element sent even when it is zero;
  \<^item> a struct is its fields in order, each preceded by the distance of its number from
    the number of the field sent before it (from \<open>-1\<close> at the start), a field with the
    zero value of its type (an empty slice or string, the number 0) left out, and a
    distance of 0 as the end mark; the decoder starts from the zero struct;
  \<^item> a message is the count of its bytes, then the id of the value's type, then the
    value.
  An encoder that has just been made, as the handler's is at each call, first sends the
  definitions of the types involved. They and the id of the type \<open>DnsRecord\<close> depend on
  the types only, so they are the same at every call; here they are two parameters
  (\<open>typeDefs\<close>, \<open>typeId\<close>), and the decoder of the model accepts the streams that begin with
  these definitions, where a real decoder would read any definitions.
\<close>

definition byteOf :: "char \<Rightarrow> 8 word" where
  "byteOf c = of_nat (of_char c)"

definition charOf :: "8 word \<Rightarrow> char" where
  "charOf b = char_of (unat b)"

function bigEndian :: "nat \<Rightarrow> bytes" where
  "bigEndian x = (if x = 0 then [] else bigEndian (x div 256) @ [of_nat (x mod 256)])"
  by pat_completeness auto
termination
  by (relation "measure id") auto

definition fromBigEndian :: "bytes \<Rightarrow> nat" where
  "fromBigEndian bs = foldl (\<lambda>x b. x * 256 + unat b) 0 bs"

definition encodeUint :: "nat \<Rightarrow> bytes" where
  "encodeUint x =
     (if x \<le> 127 then [of_nat x]
      else of_nat (256 - length (bigEndian x)) # bigEndian x)"

definition decodeUint :: "bytes \<Rightarrow> (nat \<times> bytes) option" where
  "decodeUint bs =
     (case bs of
        [] \<Rightarrow> None
      | b # rest \<Rightarrow>
          if unat b \<le> 127 then Some (unat b, rest)
          else
            (let n = 256 - unat b in
             if n > 8 then None
             else if length rest < n then None
             else Some (fromBigEndian (take n rest), drop n rest)))"

definition encodeInt :: "int \<Rightarrow> bytes" where
  "encodeInt i = encodeUint (if i < 0 then 2 * nat (- i - 1) + 1 else 2 * nat i)"

definition decodeInt :: "bytes \<Rightarrow> (int \<times> bytes) option" where
  "decodeInt bs =
     (case decodeUint bs of
        None \<Rightarrow> None
      | Some (u, rest) \<Rightarrow> Some (if odd u then - int (u div 2) - 1 else int (u div 2), rest))"

definition encUint16 :: "16 word \<Rightarrow> bytes" where
  "encUint16 v = encodeUint (unat v)"

definition decUint16 :: "bytes \<Rightarrow> (16 word \<times> bytes) option" where
  "decUint16 bs =
     (case decodeUint bs of
        None \<Rightarrow> None
      | Some (v, rest) \<Rightarrow> if 65535 < v then None else Some (of_nat v, rest))"

definition encString :: "string \<Rightarrow> bytes" where
  "encString s = encodeUint (length s) @ map byteOf s"

definition decString :: "bytes \<Rightarrow> (string \<times> bytes) option" where
  "decString bs =
     (case decodeUint bs of
        None \<Rightarrow> None
      | Some (n, rest) \<Rightarrow>
          if length rest < n then None else Some (map charOf (take n rest), drop n rest))"

fun decodeElems :: "(bytes \<Rightarrow> ('a \<times> bytes) option) \<Rightarrow> nat \<Rightarrow> bytes \<Rightarrow> ('a list \<times> bytes) option" where
  "decodeElems p 0 bs = Some ([], bs)"
| "decodeElems p (Suc n) bs =
     (case p bs of
        None \<Rightarrow> None
      | Some (x, rest) \<Rightarrow>
          (case decodeElems p n rest of
             None \<Rightarrow> None
           | Some (xs, rest') \<Rightarrow> Some (x # xs, rest')))"

definition encSlice :: "('a \<Rightarrow> bytes) \<Rightarrow> 'a list \<Rightarrow> bytes" where
  "encSlice enc xs = encodeUint (length xs) @ concat (map enc xs)"

definition decSlice :: "(bytes \<Rightarrow> ('a \<times> bytes) option) \<Rightarrow> bytes \<Rightarrow> ('a list \<times> bytes) option" where
  "decSlice p bs =
     (case decodeUint bs of
        None \<Rightarrow> None
      | Some (n, rest) \<Rightarrow> decodeElems p n rest)"

fun encStruct :: "nat \<Rightarrow> bytes option list \<Rightarrow> bytes" where
  "encStruct delta [] = encodeUint 0"
| "encStruct delta (None # fs) = encStruct (Suc delta) fs"
| "encStruct delta (Some v # fs) = encodeUint delta @ v @ encStruct 1 fs"

function decStruct ::
    "(bytes \<Rightarrow> (('r \<Rightarrow> 'r) \<times> bytes) option) list \<Rightarrow> 'r \<Rightarrow> bytes \<Rightarrow> ('r \<times> bytes) option" where
  "decStruct fs acc bs =
     (case decodeUint bs of
        None \<Rightarrow> None
      | Some (delta, rest) \<Rightarrow>
          if delta = 0 then Some (acc, rest)
          else
            (case drop (delta - 1) fs of
               [] \<Rightarrow> None
             | f # fs' \<Rightarrow>
                 (case f rest of
                    None \<Rightarrow> None
                  | Some (upd, rest') \<Rightarrow> decStruct fs' (upd acc) rest')))"
  by pat_completeness auto
termination
proof (relation "measure (\<lambda>(fs, acc, bs). length fs)")
  show "wf (measure (\<lambda>(fs, acc, bs). length fs))"
    by simp
next
  fix fs :: "(bytes \<Rightarrow> (('r \<Rightarrow> 'r) \<times> bytes) option) list" and acc :: 'r and bs :: bytes
    and delta rest f fs' upd rest' x2 x2a
  assume "drop (delta - 1) fs = f # fs'"
  then have "length (drop (delta - 1) fs) = Suc (length fs')"
    by simp
  then show "((fs', upd acc, rest'), (fs, acc, bs))
      \<in> measure (\<lambda>(fs, acc, bs). length fs)"
    by simp
qed

definition fieldDecoder ::
    "(bytes \<Rightarrow> ('a \<times> bytes) option) \<Rightarrow> ('a \<Rightarrow> 'r \<Rightarrow> 'r) \<Rightarrow> bytes \<Rightarrow> (('r \<Rightarrow> 'r) \<times> bytes) option" where
  "fieldDecoder p put bs = (case p bs of None \<Rightarrow> None | Some (v, rest) \<Rightarrow> Some (put v, rest))"

definition encMXRecord :: "MXRecord \<Rightarrow> bytes" where
  "encMXRecord m =
     encStruct 1
       [if MX_Priority m = 0 then None else Some (encUint16 (MX_Priority m)),
        if MX_Target m = [] then None else Some (encString (MX_Target m))]"

definition decMXRecord :: "bytes \<Rightarrow> (MXRecord \<times> bytes) option" where
  "decMXRecord bs =
     decStruct
       [fieldDecoder decUint16 (\<lambda>v m. m\<lparr>MX_Priority := v\<rparr>),
        fieldDecoder decString (\<lambda>v m. m\<lparr>MX_Target := v\<rparr>)]
       \<lparr>MX_Priority = 0, MX_Target = []\<rparr> bs"

definition encSRVRecord :: "SRVRecord \<Rightarrow> bytes" where
  "encSRVRecord v =
     encStruct 1
       [if SRV_Priority v = 0 then None else Some (encUint16 (SRV_Priority v)),
        if SRV_Weight v = 0 then None else Some (encUint16 (SRV_Weight v)),
        if SRV_Port v = 0 then None else Some (encUint16 (SRV_Port v)),
        if SRV_Target v = [] then None else Some (encString (SRV_Target v))]"

definition decSRVRecord :: "bytes \<Rightarrow> (SRVRecord \<times> bytes) option" where
  "decSRVRecord bs =
     decStruct
       [fieldDecoder decUint16 (\<lambda>v a. a\<lparr>SRV_Priority := v\<rparr>),
        fieldDecoder decUint16 (\<lambda>v a. a\<lparr>SRV_Weight := v\<rparr>),
        fieldDecoder decUint16 (\<lambda>v a. a\<lparr>SRV_Port := v\<rparr>),
        fieldDecoder decString (\<lambda>v a. a\<lparr>SRV_Target := v\<rparr>)]
       \<lparr>SRV_Priority = 0, SRV_Weight = 0, SRV_Port = 0, SRV_Target = []\<rparr> bs"

definition encDnsRecord :: "DnsRecord \<Rightarrow> bytes" where
  "encDnsRecord d =
     encStruct 1
       [if A d = [] then None else Some (encSlice encString (A d)),
        if AAAA d = [] then None else Some (encSlice encString (AAAA d)),
        if MX d = [] then None else Some (encSlice encMXRecord (MX d)),
        if TXT d = [] then None else Some (encSlice encString (TXT d)),
        if CNAME d = [] then None else Some (encString (CNAME d)),
        if NS d = [] then None else Some (encSlice encString (NS d)),
        if PTR d = [] then None else Some (encSlice encString (PTR d)),
        if SRV d = [] then None else Some (encSlice encSRVRecord (SRV d))]"

definition decDnsRecord :: "bytes \<Rightarrow> (DnsRecord \<times> bytes) option" where
  "decDnsRecord bs =
     decStruct
       [fieldDecoder (decSlice decString) (\<lambda>v d. d\<lparr>A := v\<rparr>),
        fieldDecoder (decSlice decString) (\<lambda>v d. d\<lparr>AAAA := v\<rparr>),
        fieldDecoder (decSlice decMXRecord) (\<lambda>v d. d\<lparr>MX := v\<rparr>),
        fieldDecoder (decSlice decString) (\<lambda>v d. d\<lparr>TXT := v\<rparr>),
        fieldDecoder decString (\<lambda>v d. d\<lparr>CNAME := v\<rparr>),
        fieldDecoder (decSlice decString) (\<lambda>v d. d\<lparr>NS := v\<rparr>),
        fieldDecoder (decSlice decString) (\<lambda>v d. d\<lparr>PTR := v\<rparr>),
        fieldDecoder (decSlice decSRVRecord) (\<lambda>v d. d\<lparr>SRV := v\<rparr>)]
       emptyDnsRecord bs"

record gobTypes =
  typeDefs :: bytes
  typeId :: int

definition gobEncodeDnsRecord :: "gobTypes \<Rightarrow> DnsRecord \<Rightarrow> bytes" where
  "gobEncodeDnsRecord W d =
     (let body = encodeInt (typeId W) @ encDnsRecord d
      in typeDefs W @ encodeUint (length body) @ body)"

definition gobDecodeDnsRecord :: "gobTypes \<Rightarrow> bytes \<Rightarrow> DnsRecord option" where
  "gobDecodeDnsRecord W bs =
     (if take (length (typeDefs W)) bs \<noteq> typeDefs W then None
      else
        (case decodeUint (drop (length (typeDefs W)) bs) of
           None \<Rightarrow> None
         | Some (n, rest) \<Rightarrow>
             if length rest < n then None
             else
               (case decodeInt (take n rest) of
                  None \<Rightarrow> None
                | Some (i, body) \<Rightarrow>
                    if i \<noteq> typeId W then None
                    else
                      (case decDnsRecord body of
                         None \<Rightarrow> None
                       | Some (d, rest') \<Rightarrow> Some d))))"

text \<open>
  The sizes a Go value can have: a length is an \<open>int\<close>, so below \<open>2^63\<close>, as is the length
  of a message in its buffer; a type id is a positive \<open>int32\<close>.
\<close>

definition goString :: "string \<Rightarrow> bool" where
  "goString s = (length s < 2 ^ 63)"

definition goStrings :: "string list \<Rightarrow> bool" where
  "goStrings ss = (length ss < 2 ^ 63 \<and> list_all goString ss)"

definition goDnsRecord :: "DnsRecord \<Rightarrow> bool" where
  "goDnsRecord d =
     (goStrings (A d) \<and> goStrings (AAAA d)
      \<and> length (MX d) < 2 ^ 63 \<and> list_all (\<lambda>m. goString (MX_Target m)) (MX d)
      \<and> goStrings (TXT d) \<and> goString (CNAME d) \<and> goStrings (NS d) \<and> goStrings (PTR d)
      \<and> length (SRV d) < 2 ^ 63 \<and> list_all (\<lambda>v. goString (SRV_Target v)) (SRV d))"

definition goMessage :: "gobTypes \<Rightarrow> DnsRecord \<Rightarrow> bool" where
  "goMessage W d =
     (0 < typeId W \<and> typeId W < 2 ^ 31 \<and> goDnsRecord d
      \<and> length (encodeInt (typeId W) @ encDnsRecord d) < 2 ^ 63)"

subsection \<open>Notions the properties are stated with\<close>

text \<open>The server drawn at attempt \<open>i\<close>, and what the exchange with it returns.\<close>

definition server :: "env \<Rightarrow> TinyDNS \<Rightarrow> int \<Rightarrow> string" where
  "server E t i = PickRandom E i (UpstreamServers (options t))"

definition attemptResult :: "env \<Rightarrow> TinyDNS \<Rightarrow> int \<Rightarrow> Msg option \<times> go_error" where
  "attemptResult E t i = exchange E i (server E t i)"

text \<open>
  The events of attempt \<open>i\<close> when it fails: the log line, the exchange, the error line,
  and the pause unless \<open>i\<close> is the last of the \<open>retries\<close> attempts.
\<close>

definition failedAttempt ::
    "env \<Rightarrow> TinyDNS \<Rightarrow> string \<Rightarrow> string \<Rightarrow> string \<Rightarrow> int \<Rightarrow> int \<Rightarrow> event list" where
  "failedAttempt E t domainLookup clientIP recordType retries i =
     [Log (FORWARD recordType domainLookup (server E t i) clientIP (i + 1) retries),
      Exchange i (server E t i) (attemptResult E t i),
      Log (ERROR_upstream recordType domainLookup (server E t i) (snd (attemptResult E t i)))]
     @ (if i < retries - 1 then [Sleep (100 * Millisecond)] else [])"

text \<open>The pauses of a run, in order.\<close>

fun sleeps :: "event list \<Rightarrow> int list" where
  "sleeps [] = []"
| "sleeps (Sleep d # evs) = d # sleeps evs"
| "sleeps (_ # evs) = sleeps evs"

text \<open>The exchanges of a run, in order: attempt and server.\<close>

fun exchanges :: "event list \<Rightarrow> (int \<times> string) list" where
  "exchanges [] = []"
| "exchanges (Exchange i srv res # evs) = (i, srv) # exchanges evs"
| "exchanges (_ # evs) = exchanges evs"

text \<open>
  The answer section the specification's fallback synthesizer describes: nothing when the
  toggle is off, the type is neither \<open>A\<close> nor \<open>AAAA\<close> or the default for the type is empty;
  otherwise the one default address, with TTL 0.
\<close>

definition synthesize :: "lib \<Rightarrow> Options \<Rightarrow> Question \<Rightarrow> RR list" where
  "synthesize L opts q =
     (if \<not> FallbackResponse opts then []
      else if Qtype q = TypeA \<and> DefaultA opts \<noteq> [] then
        [dns_A \<lparr>Hdr_Name = Name q, Rrtype = TypeA, Class = ClassINET, Ttl = 0\<rparr>
           (ParseIP L (DefaultA opts))]
      else if Qtype q = TypeAAAA \<and> DefaultAAAA opts \<noteq> [] then
        [dns_AAAA \<lparr>Hdr_Name = Name q, Rrtype = TypeAAAA, Class = ClassINET, Ttl = 0\<rparr>
           (ParseIP L (DefaultAAAA opts))]
      else [])"

text \<open>The number of attempts the loop makes at most: the retry count, at least 1.\<close>

definition attempts :: "TinyDNS \<Rightarrow> int" where
  "attempts t = max 1 (UpstreamRetries (options t))"

text \<open>
  The tiers of the pipeline in their order of precedence, the tier an event consults, and
  the tiers a run consults, in order. The fallback tier is entered where
  \<open>sendFallbackOrEmpty\<close> logs its answer.
\<close>

datatype tier = Config | Exact | Wildcard | Cache | Upstream | Fallback

fun rank :: "tier \<Rightarrow> nat" where
  "rank Config = 0"
| "rank Exact = 1"
| "rank Wildcard = 2"
| "rank Cache = 3"
| "rank Upstream = 4"
| "rank Fallback = 5"

fun tier_of :: "event \<Rightarrow> tier option" where
  "tier_of (RuleCheck rule) = Some Config"
| "tier_of (MemoryLookup key) = Some Exact"
| "tier_of WildcardLookup = Some Wildcard"
| "tier_of (CacheGet key) = Some Cache"
| "tier_of (Exchange i srv res) = Some Upstream"
| "tier_of (Log (RESPONSE rt dl (fallback_response why))) = Some Fallback"
| "tier_of (Log (RESPONSE rt dl (empty_response why))) = Some Fallback"
| "tier_of _ = None"

fun consulted :: "event list \<Rightarrow> tier list" where
  "consulted [] = []"
| "consulted (e # evs) = (case tier_of e of Some x \<Rightarrow> x # consulted evs | None \<Rightarrow> consulted evs)"

text \<open>The cache writes of a run, and the messages of its successful exchanges.\<close>

fun cacheSets :: "event list \<Rightarrow> (string \<times> bytes) list" where
  "cacheSets [] = []"
| "cacheSets (CacheSet key b # evs) = (key, b) # cacheSets evs"
| "cacheSets (_ # evs) = cacheSets evs"

fun successes :: "event list \<Rightarrow> Msg list" where
  "successes [] = []"
| "successes (Exchange i srv res # evs) =
     (case succeeded res of Some m \<Rightarrow> m # successes evs | None \<Rightarrow> successes evs)"
| "successes (_ # evs) = successes evs"

text \<open>
  Events that only read the rules, the record store and the cache: nothing is written to
  the client or the cache, no exchange succeeds, and the tiers are read in order.
\<close>

definition local_reads :: "event list \<Rightarrow> bool" where
  "local_reads pre =
     (written pre = [] \<and> cacheSets pre = [] \<and> successes pre = [] \<and> Panic \<notin> set pre
      \<and> sorted (map rank (consulted pre))
      \<and> set (consulted pre) \<subseteq> {Config, Exact, Wildcard, Cache})"

text \<open>
  The rules the handler has loaded, and the test of line 232 that a rule matches a
  question.
\<close>

definition rulesOf :: "TinyDNS \<Rightarrow> DNSRecord list" where
  "rulesOf t = (case config t of None \<Rightarrow> [] | Some c \<Rightarrow> Records c)"

definition ruleMatches :: "lib \<Rightarrow> Question \<Rightarrow> DNSRecord \<Rightarrow> bool" where
  "ruleMatches L q rule =
     (matchesDomain (TrimSuffix (Name q) ''.'') (Domain rule)
      \<and> Type rule = TypeToString L (Qtype q))"

text \<open>
  The tiers a handler has, in their fixed order: the rules if there are any, the record
  store's entry for the name and for \<open>*\<close>, the cache if it is on, upstream if a server is
  configured, the fallback.
\<close>

definition tierOrder :: "TinyDNS \<Rightarrow> tier list" where
  "tierOrder t =
     (if rulesOf t = [] then [] else [Config])
     @ [Exact, Wildcard]
     @ (if UseDiskCache (options t) then [Cache] else [])
     @ (if UpstreamServers (options t) = [] then [] else [Upstream])
     @ [Fallback]"

text \<open>
  The pipeline as the specification tells it: each tier has an answer or none, and the
  first tier that has one wins. \<open>memoryAnswer\<close> and \<open>wildcardAnswer\<close> are the record
  store's entry for the name and for \<open>*\<close>, \<open>cacheAnswer\<close> a stored entry that decodes,
  \<open>upstreamAnswer\<close> the message of the first attempt that succeeds; \<open>fallbackAnswer\<close> is
  the message sent when no tier has an answer. \<open>nonEmpty\<close> keeps an answer only if its
  answer section has a record: the reading of the precedence rule with the words
  \<open>non-empty\<close> taken literally.
\<close>

fun first_some :: "'a option list \<Rightarrow> 'a option" where
  "first_some [] = None"
| "first_some (Some x # xs) = Some x"
| "first_some (None # xs) = first_some xs"

definition memoryAnswer :: "lib \<Rightarrow> TinyDNS \<Rightarrow> Msg \<Rightarrow> Question \<Rightarrow> Msg option" where
  "memoryAnswer L t r q =
     map_option (\<lambda>d. createResponseFromDnsRecord L t r (Name q) d (Qtype q))
       (DnsRecords (options t) (TrimSuffix (Name q) ''.''))"

definition wildcardAnswer :: "lib \<Rightarrow> TinyDNS \<Rightarrow> Msg \<Rightarrow> Question \<Rightarrow> Msg option" where
  "wildcardAnswer L t r q =
     map_option (\<lambda>d. createResponseFromDnsRecord L t r (Name q) d (Qtype q))
       (DnsRecords (options t) ''*'')"

definition cacheAnswer :: "lib \<Rightarrow> TinyDNS \<Rightarrow> Msg \<Rightarrow> Question \<Rightarrow> Msg option" where
  "cacheAnswer L t r q =
     (if UseDiskCache (options t) then
        (case hm t (Name q @ TypeToString L (Qtype q)) of
           None \<Rightarrow> None
         | Some b \<Rightarrow>
             map_option (\<lambda>d. createResponseFromDnsRecord L t r (Name q) d (Qtype q))
               (gobDecode L b))
      else None)"

definition upstreamAnswer :: "env \<Rightarrow> TinyDNS \<Rightarrow> Msg option" where
  "upstreamAnswer E t =
     (if UpstreamServers (options t) = [] then None
      else first_some (map (\<lambda>i. succeeded (attemptResult E t i)) [0..attempts t - 1]))"

definition fallbackAnswer :: "lib \<Rightarrow> TinyDNS \<Rightarrow> Msg \<Rightarrow> Question \<Rightarrow> Msg" where
  "fallbackAnswer L t r q = (SetReply new_Msg r)\<lparr>Answer := synthesize L (options t) q\<rparr>"

definition tierAnswers :: "lib \<Rightarrow> env \<Rightarrow> TinyDNS \<Rightarrow> Msg \<Rightarrow> Question \<Rightarrow> Msg option list" where
  "tierAnswers L E t r q =
     [memoryAnswer L t r q, wildcardAnswer L t r q, cacheAnswer L t r q, upstreamAnswer E t]"

definition nonEmpty :: "Msg option \<Rightarrow> Msg option" where
  "nonEmpty a = (case a of None \<Rightarrow> None | Some m \<Rightarrow> if Answer m \<noteq> [] then Some m else None)"

text \<open>
  A struct's fields, each given by what the encoder sends for it (\<open>None\<close> when the field
  is omitted), its decoder, and the update the decoder is to return.
\<close>

definition fieldOk ::
    "bytes option \<times> (bytes \<Rightarrow> (('r \<Rightarrow> 'r) \<times> bytes) option) \<times> ('r \<Rightarrow> 'r) \<Rightarrow> bool" where
  "fieldOk x = (case x of (e, f, u) \<Rightarrow> (case e of None \<Rightarrow> True
                                           | Some v \<Rightarrow> (\<forall>rest. f (v @ rest) = Some (u, rest))))"

definition applyField ::
    "bytes option \<times> (bytes \<Rightarrow> (('r \<Rightarrow> 'r) \<times> bytes) option) \<times> ('r \<Rightarrow> 'r) \<Rightarrow> 'r \<Rightarrow> 'r" where
  "applyField x acc = (case x of (e, f, u) \<Rightarrow> (case e of None \<Rightarrow> acc | Some v \<Rightarrow> u acc))"

subsection \<open>Sample values\<close>

text \<open>
  \<open>DefaultOptions\<close> is the value of that name in \<^verbatim>\<open>option.go\<close>. The other values are
  examples: a library instance that knows two addresses, the names of the eight types and
  one encodable record, a query for \<open>x.com.\<close>, an upstream answer to it, and three
  upstreams (one that answers, one that times out, one that answers at the third attempt).
\<close>

definition DefaultOptions :: Options where
  "DefaultOptions =
     \<lparr>ListenAddress = ''127.0.0.1:53'', Net = ''udp'', UpstreamServers = [''1.1.1.1:53''],
      DnsRecords = Map.empty, DiskCache = True, UseDiskCache = True, Opt_TTL = 0,
      ConfigFile = [], UpstreamTimeout = 2 * 1000 * Millisecond, UpstreamRetries = 2,
      FallbackResponse = False, DefaultA = ''0.0.0.0'', DefaultAAAA = ''::''\<rparr>"

definition sampleRecord :: DnsRecord where
  "sampleRecord = emptyDnsRecord\<lparr>A := [''93.184.216.34'']\<rparr>"

definition sampleLib :: lib where
  "sampleLib =
     \<lparr>ParseIP = (\<lambda>s. if s = ''93.184.216.34'' then [93, 184, 216, 34]
                     else if s = ''127.0.0.1'' then [127, 0, 0, 1]
                     else if s = ''10.0.0.5'' then [10, 0, 0, 5]
                     else []),
      IP_String = (\<lambda>a. if a = [93, 184, 216, 34] then ''93.184.216.34''
                       else if a = [127, 0, 0, 1] then ''127.0.0.1''
                       else if a = [10, 0, 0, 5] then ''10.0.0.5''
                       else ''<nil>''),
      TypeToString = (\<lambda>ty. if ty = TypeA then ''A'' else if ty = TypeNS then ''NS''
                          else if ty = TypeCNAME then ''CNAME'' else if ty = TypePTR then ''PTR''
                          else if ty = TypeMX then ''MX'' else if ty = TypeTXT then ''TXT''
                          else if ty = TypeAAAA then ''AAAA'' else if ty = TypeSRV then ''SRV''
                          else []),
      gobEncode = (\<lambda>d. Some (if d = sampleRecord then [1] else [0])),
      gobDecode = (\<lambda>b. if b = [1] then Some sampleRecord else None)\<rparr>"

definition sampleQuestion :: Question where
  "sampleQuestion = \<lparr>Name = ''x.com.'', Qtype = TypeA, Qclass = ClassINET\<rparr>"

definition sampleQuery :: Msg where
  "sampleQuery = new_Msg\<lparr>Id := 7, RecursionDesired := True, Question := [sampleQuestion]\<rparr>"

definition sampleUpstreamMsg :: Msg where
  "sampleUpstreamMsg =
     (SetReply new_Msg sampleQuery)
       \<lparr>RecursionAvailable := True,
        Answer := [dns_A \<lparr>Hdr_Name = ''x.com.'', Rrtype = TypeA, Class = ClassINET, Ttl = 3600\<rparr>
                     [93, 184, 216, 34]]\<rparr>"

definition firstServer :: "string list \<Rightarrow> string" where
  "firstServer servers = (case servers of [] \<Rightarrow> [] | srv # _ \<Rightarrow> srv)"

definition answering :: env where
  "answering = \<lparr>PickRandom = (\<lambda>i. firstServer), exchange = (\<lambda>i srv. (Some sampleUpstreamMsg, None))\<rparr>"

definition timingOut :: env where
  "timingOut = \<lparr>PickRandom = (\<lambda>i. firstServer), exchange = (\<lambda>i srv. (None, Some ''i/o timeout''))\<rparr>"

definition answeringThird :: env where
  "answeringThird =
     \<lparr>PickRandom = (\<lambda>i. firstServer),
      exchange = (\<lambda>i srv. if i < 2 then (None, Some ''i/o timeout'')
                          else (Some sampleUpstreamMsg, None))\<rparr>"

definition sampleServer :: TinyDNS where
  "sampleServer = \<lparr>options = DefaultOptions, hm = Map.empty, config = None\<rparr>"

definition fallbackServer :: TinyDNS where
  "fallbackServer =
     sampleServer\<lparr>options := DefaultOptions\<lparr>FallbackResponse := True, DefaultA := ''127.0.0.1'',
                                            DefaultAAAA := []\<rparr>\<rparr>"

definition threeTries :: TinyDNS where
  "threeTries = sampleServer\<lparr>options := DefaultOptions\<lparr>UpstreamRetries := 3\<rparr>\<rparr>"

definition noRetries :: TinyDNS where
  "noRetries = sampleServer\<lparr>options := DefaultOptions\<lparr>UpstreamRetries := 0\<rparr>\<rparr>"

definition storeServer :: TinyDNS where
  "storeServer =
     sampleServer\<lparr>options := DefaultOptions
       \<lparr>DnsRecords := [''x.com'' \<mapsto> emptyDnsRecord\<lparr>TXT := [''v=spf1 -all'']\<rparr>,
                       ''*'' \<mapsto> emptyDnsRecord\<lparr>A := [''10.0.0.5'']\<rparr>]\<rparr>\<rparr>"

definition forwardRule :: DNSRecord where
  "forwardRule =
     \<lparr>Domain = ''*.com'', Type = ''A'', Value = [], Values = [], TTL = 300, Priority = 0,
      Weight = 0, Port = 0, Target = [], Action = ''forward''\<rparr>"

definition mailRule :: DNSRecord where
  "mailRule =
     \<lparr>Domain = ''x.com'', Type = ''MX'', Value = [], Values = [], TTL = 300, Priority = 10,
      Weight = 0, Port = 0, Target = ''mail.x.com.'', Action = ''resolve''\<rparr>"

definition forwardingServer :: TinyDNS where
  "forwardingServer =
     \<lparr>options = DefaultOptions\<lparr>DnsRecords := [''x.com'' \<mapsto> sampleRecord]\<rparr>,
      hm = [''x.com.A'' \<mapsto> [1]],
      config = Some \<lparr>Records = [mailRule, forwardRule]\<rparr>\<rparr>"

definition staleServer :: TinyDNS where
  "staleServer = sampleServer\<lparr>hm := [''x.com.A'' \<mapsto> [0]]\<rparr>"

definition answeringEmpty :: env where
  "answeringEmpty =
     \<lparr>PickRandom = (\<lambda>i. firstServer),
      exchange = (\<lambda>i srv. (Some (sampleUpstreamMsg\<lparr>Answer := []\<rparr>), None))\<rparr>"

text \<open>
  A library whose serializer is the one modelled above, with the type id \<open>65\<close> of the
  example in the documentation of \<^verbatim>\<open>encoding/gob\<close> and no type definitions.
\<close>

definition sampleTypes :: gobTypes where
  "sampleTypes = \<lparr>typeDefs = [], typeId = 65\<rparr>"

definition gobLib :: lib where
  "gobLib =
     sampleLib\<lparr>gobEncode := (\<lambda>d. Some (gobEncodeDnsRecord sampleTypes d)),
               gobDecode := gobDecodeDnsRecord sampleTypes\<rparr>"

section \<open>Properties\<close>

subsection \<open>Strings and messages\<close>

lemma HasPrefix_iff: "HasPrefix s p = (\<exists>r. s = p @ r)"
  unfolding HasPrefix_def
  by (metis append_eq_conv_conj append_take_drop_id length_append le_add1)

lemma HasSuffix_iff: "HasSuffix s x = (\<exists>pre. s = pre @ x)"
proof
  assume "HasSuffix s x"
  then have "s = take (length s - length x) s @ x"
    unfolding HasSuffix_def by (metis append_take_drop_id)
  then show "\<exists>pre. s = pre @ x" ..
next
  assume "\<exists>pre. s = pre @ x"
  then show "HasSuffix s x"
    unfolding HasSuffix_def by auto
qed

lemma TrimPrefix_star: "TrimPrefix (CHR ''*'' # CHR ''.'' # rest) ''*'' = CHR ''.'' # rest"
  by (simp add: TrimPrefix_def HasPrefix_def)

lemma TypeA_neq_TypeAAAA [simp]: "TypeA \<noteq> TypeAAAA" "TypeAAAA \<noteq> TypeA"
  by (simp_all add: dns_types)

lemma Answer_SetReply [simp]: "Answer (SetReply m r) = Answer m"
  by (simp add: SetReply_def Let_def split: list.splits)

lemma Authoritative_SetReply [simp]: "Authoritative (SetReply m r) = Authoritative m"
  by (simp add: SetReply_def Let_def split: list.splits)

lemma Answer_new_Msg [simp]: "Answer new_Msg = []"
  by (simp add: new_Msg_def)

lemma Authoritative_new_Msg [simp]: "Authoritative new_Msg = False"
  by (simp add: new_Msg_def)

lemma written_append [simp]: "written (xs @ ys) = written xs @ written ys"
  by (induction xs rule: written.induct) simp_all

lemma sleeps_append [simp]: "sleeps (xs @ ys) = sleeps xs @ sleeps ys"
  by (induction xs rule: sleeps.induct) simp_all

lemma exchanges_append [simp]: "exchanges (xs @ ys) = exchanges xs @ exchanges ys"
  by (induction xs rule: exchanges.induct) simp_all

text \<open>The two builders of local answers mark their message authoritative.\<close>

lemma createResponseFromConfig_authoritative:
  "Authoritative (createResponseFromConfig L t r domain record' qtype)"
  by (simp add: createResponseFromConfig_def Let_def)

lemma createResponseFromDnsRecord_authoritative:
  "Authoritative (createResponseFromDnsRecord L t r domain dnsRecord qtype)"
  by (simp add: createResponseFromDnsRecord_def Let_def)

subsection \<open>Domain patterns\<close>

text \<open>
  C4, as the specification states it, does not hold: the suffix that \<open>matchesDomain\<close>
  compares is the pattern without its star, so it begins with the dot, and \<open>xfoo.com\<close>
  does not match \<open>*.foo.com\<close>.
\<close>

theorem matchesDomain_xfoo_counterexample:
  "\<not> matchesDomain ''xfoo.com'' ''*.foo.com''"
  by (simp add: matchesDomain_def HasPrefix_def TrimPrefix_def HasSuffix_def)

text \<open>
  C4, amended: the pattern \<open>*\<close> matches every domain; a pattern \<open>*.rest\<close> matches exactly
  the domains that end with \<open>.rest\<close>, the dot included (so \<open>bar.foo.com\<close> matches
  \<open>*.foo.com\<close>, and neither \<open>xfoo.com\<close> nor \<open>foo.com\<close> does); any other pattern matches
  only the identical string.
\<close>

theorem matchesDomain_cases:
  "matchesDomain query ''*''
   \<and> matchesDomain query (''*.'' @ rest) = (\<exists>pre. query = pre @ ''.'' @ rest)
   \<and> (pattern \<noteq> ''*'' \<and> (\<forall>rest. pattern \<noteq> ''*.'' @ rest)
        \<longrightarrow> matchesDomain query pattern = (query = pattern))
   \<and> matchesDomain ''bar.foo.com'' ''*.foo.com''
   \<and> \<not> matchesDomain ''xfoo.com'' ''*.foo.com''
   \<and> \<not> matchesDomain ''foo.com'' ''*.foo.com''"
proof -
  have star: "matchesDomain query ''*''"
    by (simp add: matchesDomain_def)
  have wild: "matchesDomain query (''*.'' @ rest) = (\<exists>pre. query = pre @ ''.'' @ rest)"
    by (simp add: matchesDomain_def HasPrefix_iff TrimPrefix_star HasSuffix_iff Let_def)
  have exact: "pattern \<noteq> ''*'' \<and> (\<forall>rest. pattern \<noteq> ''*.'' @ rest)
        \<longrightarrow> matchesDomain query pattern = (query = pattern)"
    by (auto simp add: matchesDomain_def HasPrefix_iff)
  have examples: "matchesDomain ''bar.foo.com'' ''*.foo.com''
      \<and> \<not> matchesDomain ''xfoo.com'' ''*.foo.com'' \<and> \<not> matchesDomain ''foo.com'' ''*.foo.com''"
    by (simp add: matchesDomain_def HasPrefix_def TrimPrefix_def HasSuffix_def)
  from star wild exact examples show ?thesis
    by blast
qed

theorem matchesDomain_cases_witness:
  "matchesDomain ''svc.local'' ''*''
   \<and> matchesDomain ''a.b.example.org'' ''*.example.org''
   \<and> \<not> matchesDomain ''example.org'' ''*.example.org''
   \<and> ''svc.local'' \<noteq> ''*'' \<and> (\<forall>rest. ''svc.local'' \<noteq> ''*.'' @ rest)
   \<and> matchesDomain ''svc.local'' ''svc.local''
   \<and> \<not> matchesDomain ''svc.locals'' ''svc.local''"
  using matchesDomain_cases [of "''svc.local''" "''example.org''" "''svc.local''"]
    matchesDomain_cases [of "''a.b.example.org''" "''example.org''" "''svc.local''"]
    matchesDomain_cases [of "''example.org''" "''example.org''" "''svc.local''"]
    matchesDomain_cases [of "''svc.locals''" "''example.org''" "''svc.local''"]
  by (simp add: append_eq_Cons_conv)

subsection \<open>Answers from the record store and the cache\<close>

text \<open>
  C10: every answer record that \<open>createResponseFromDnsRecord\<close> builds (the builder of the
  memory, wildcard and cache answers) has TTL 60, whatever the handler's options (the TTL
  option among them), the record and the type asked; so has every record built from what
  \<open>extractDnsRecord\<close> keeps of an upstream message, whatever the TTLs in that message.
\<close>

theorem stored_answers_have_ttl_60:
  "(\<forall>rr \<in> set (Answer (createResponseFromDnsRecord L t r domain dnsRecord qtype)).
      Ttl (Hdr rr) = 60)
   \<and> (\<forall>rr \<in> set (Answer (createResponseFromDnsRecord L t r domain (extractDnsRecord L msg) qtype)).
      Ttl (Hdr rr) = 60)"
  by (auto simp add: createResponseFromDnsRecord_def Let_def)

theorem stored_answers_have_ttl_60_witness:
  "Answer (createResponseFromDnsRecord sampleLib
             (sampleServer\<lparr>options := DefaultOptions\<lparr>Opt_TTL := 86400\<rparr>\<rparr>) sampleQuery ''x.com.''
             (extractDnsRecord sampleLib sampleUpstreamMsg) TypeA)
     = [dns_A \<lparr>Hdr_Name = ''x.com.'', Rrtype = TypeA, Class = ClassINET, Ttl = 60\<rparr>
          [93, 184, 216, 34]]
   \<and> list_all (\<lambda>rr. Ttl (Hdr rr) = 60)
        (Answer (createResponseFromDnsRecord sampleLib
             (sampleServer\<lparr>options := DefaultOptions\<lparr>Opt_TTL := 86400\<rparr>\<rparr>) sampleQuery ''x.com.''
             (extractDnsRecord sampleLib sampleUpstreamMsg) TypeA))
   \<and> map (\<lambda>rr. Ttl (Hdr rr)) (Answer sampleUpstreamMsg) = [3600]"
  using stored_answers_have_ttl_60 [of sampleLib
      "sampleServer\<lparr>options := DefaultOptions\<lparr>Opt_TTL := 86400\<rparr>\<rparr>" sampleQuery "''x.com.''"
      "extractDnsRecord sampleLib sampleUpstreamMsg" TypeA sampleUpstreamMsg]
  by (simp add: createResponseFromDnsRecord_def extractDnsRecord_def sampleUpstreamMsg_def
      sampleLib_def emptyDnsRecord_def Let_def)

subsection \<open>The retry loop\<close>

declare upstreamLoop.simps [simp del]

lemma retries_clamped:
  "(if UpstreamRetries (options t) \<le> 0 then 1 else UpstreamRetries (options t))
     = max 1 (UpstreamRetries (options t))"
  by (simp add: max_def)

text \<open>When every attempt from \<open>attempt\<close> on fails, the loop runs to its end.\<close>

lemma upstreamLoop_all_fail:
  "(\<And>i. attempt \<le> i \<Longrightarrow> i < retries \<Longrightarrow> succeeded (attemptResult E t i) = None) \<Longrightarrow>
   upstreamLoop L E t r dl cip rt retries attempt lastErr =
     (t, concat (map (failedAttempt E t dl cip rt retries) [attempt..retries - 1])
         @ [Log (ERROR_all_failed rt dl retries
                   (if attempt < retries then snd (attemptResult E t (retries - 1)) else lastErr))]
         @ sendFallbackOrEmpty L t r dl rt
             (upstream_failed
                (if attempt < retries then snd (attemptResult E t (retries - 1)) else lastErr)))"
proof (induction L E t r dl cip rt retries attempt lastErr rule: upstreamLoop.induct)
  case (1 L E t r dl cip rt retries attempt lastErr)
  show ?case
  proof (cases "attempt < retries")
    case False
    then show ?thesis
      by (subst upstreamLoop.simps) simp
  next
    case True
    have fail: "succeeded (exchange E attempt (PickRandom E attempt (UpstreamServers (options t))))
                  = None"
      using "1.prems"[of attempt] True by (simp add: attemptResult_def server_def)
    have IH: "upstreamLoop L E t r dl cip rt retries (attempt + 1)
                (snd (exchange E attempt (PickRandom E attempt (UpstreamServers (options t))))) =
       (t, concat (map (failedAttempt E t dl cip rt retries) [attempt + 1..retries - 1])
         @ [Log (ERROR_all_failed rt dl retries
                   (if attempt + 1 < retries then snd (attemptResult E t (retries - 1))
                    else snd (exchange E attempt
                                (PickRandom E attempt (UpstreamServers (options t))))))]
         @ sendFallbackOrEmpty L t r dl rt
             (upstream_failed
                (if attempt + 1 < retries then snd (attemptResult E t (retries - 1))
                 else snd (exchange E attempt
                             (PickRandom E attempt (UpstreamServers (options t)))))))"
      using "1.IH"[OF True refl refl refl fail] "1.prems" by simp
    have upto: "[attempt..retries - 1] = attempt # [attempt + 1..retries - 1]"
      using True by (simp add: upto_rec1)
    show ?thesis
    proof (cases "attempt + 1 < retries")
      case more: True
      show ?thesis
        apply (subst upstreamLoop.simps)
        apply (simp only: True if_True Let_def fail option.case IH prod.case upto list.map
            concat.simps)
        using True more
        apply (simp add: failedAttempt_def attemptResult_def server_def)
        done
    next
      case False
      then have eq: "retries = attempt + 1"
        using True by simp
      show ?thesis
        apply (subst upstreamLoop.simps)
        apply (simp only: True if_True Let_def fail option.case IH prod.case upto list.map
            concat.simps)
        apply (simp add: eq failedAttempt_def attemptResult_def server_def)
        done
    qed
  qed
qed

text \<open>When attempt \<open>k\<close> is the first to succeed, the loop ends there.\<close>

lemma upstreamLoop_first_success:
  "attempt \<le> k \<Longrightarrow> k < retries \<Longrightarrow>
   (\<And>i. attempt \<le> i \<Longrightarrow> i < k \<Longrightarrow> succeeded (attemptResult E t i) = None) \<Longrightarrow>
   succeeded (attemptResult E t k) = Some msg \<Longrightarrow>
   upstreamLoop L E t r dl cip rt retries attempt lastErr =
     after (concat (map (failedAttempt E t dl cip rt retries) [attempt..k - 1])
            @ [Log (FORWARD rt dl (server E t k) cip (k + 1) retries),
               Exchange k (server E t k) (attemptResult E t k)])
       (upstreamSuccess L t r dl rt (server E t k) msg)"
proof (induction L E t r dl cip rt retries attempt lastErr rule: upstreamLoop.induct)
  case (1 L E t r dl cip rt retries attempt lastErr)
  have lt: "attempt < retries"
    using "1.prems" by simp
  show ?case
  proof (cases "attempt = k")
    case True
    have ok: "succeeded (exchange E attempt (PickRandom E attempt (UpstreamServers (options t))))
                = Some msg"
      using "1.prems"(4) True by (simp add: attemptResult_def server_def)
    show ?thesis
      apply (subst upstreamLoop.simps)
      apply (simp only: lt if_True Let_def ok option.case)
      using True
      apply (simp add: after_def attemptResult_def server_def split: prod.splits)
      done
  next
    case False
    then have lk: "attempt < k"
      using "1.prems"(1) by simp
    have fail: "succeeded (exchange E attempt (PickRandom E attempt (UpstreamServers (options t))))
                  = None"
      using "1.prems"(3)[of attempt] lk by (simp add: attemptResult_def server_def)
    have IH: "upstreamLoop L E t r dl cip rt retries (attempt + 1)
                (snd (exchange E attempt (PickRandom E attempt (UpstreamServers (options t))))) =
      after (concat (map (failedAttempt E t dl cip rt retries) [attempt + 1..k - 1])
            @ [Log (FORWARD rt dl (server E t k) cip (k + 1) retries),
               Exchange k (server E t k) (attemptResult E t k)])
       (upstreamSuccess L t r dl rt (server E t k) msg)"
      using "1.IH"[OF lt refl refl refl fail] "1.prems" lk by simp
    have upto: "[attempt..k - 1] = attempt # [attempt + 1..k - 1]"
      using lk by (simp add: upto_rec1)
    have pause: "attempt < retries - 1"
      using lk "1.prems"(2) by simp
    show ?thesis
      apply (subst upstreamLoop.simps)
      apply (simp only: lt if_True Let_def fail option.case IH prod.case upto list.map
          concat.simps)
      using pause
      apply (simp add: failedAttempt_def attemptResult_def server_def after_def
          split: prod.splits)
      done
  qed
qed

lemma forwardToUpstream_all_fail:
  assumes "UpstreamServers (options t) \<noteq> []"
    and "n = max 1 (UpstreamRetries (options t))"
    and "\<And>i. 0 \<le> i \<Longrightarrow> i < n \<Longrightarrow> succeeded (attemptResult E t i) = None"
  shows "forwardToUpstream L E t r dl cip rt =
     (t, concat (map (failedAttempt E t dl cip rt n) [0..n - 1])
         @ [Log (ERROR_all_failed rt dl n (snd (attemptResult E t (n - 1))))]
         @ sendFallbackOrEmpty L t r dl rt (upstream_failed (snd (attemptResult E t (n - 1)))))"
proof -
  have pos: "0 < n"
    using assms(2) by simp
  have "forwardToUpstream L E t r dl cip rt = upstreamLoop L E t r dl cip rt n 0 None"
    using assms(1,2) by (simp add: forwardToUpstream_def retries_clamped Let_def)
  also have "\<dots> = (t, concat (map (failedAttempt E t dl cip rt n) [0..n - 1])
         @ [Log (ERROR_all_failed rt dl n (snd (attemptResult E t (n - 1))))]
         @ sendFallbackOrEmpty L t r dl rt (upstream_failed (snd (attemptResult E t (n - 1)))))"
    using upstreamLoop_all_fail[of 0 n E t L r dl cip rt None] assms(3) pos by simp
  finally show ?thesis .
qed

lemma forwardToUpstream_first_success:
  assumes "UpstreamServers (options t) \<noteq> []"
    and "n = max 1 (UpstreamRetries (options t))"
    and "0 \<le> k" and "k < n"
    and "\<And>i. 0 \<le> i \<Longrightarrow> i < k \<Longrightarrow> succeeded (attemptResult E t i) = None"
    and "succeeded (attemptResult E t k) = Some msg"
  shows "forwardToUpstream L E t r dl cip rt =
     after (concat (map (failedAttempt E t dl cip rt n) [0..k - 1])
            @ [Log (FORWARD rt dl (server E t k) cip (k + 1) n),
               Exchange k (server E t k) (attemptResult E t k)])
       (upstreamSuccess L t r dl rt (server E t k) msg)"
proof -
  have "forwardToUpstream L E t r dl cip rt = upstreamLoop L E t r dl cip rt n 0 None"
    using assms(1,2) by (simp add: forwardToUpstream_def retries_clamped Let_def)
  also have "\<dots> = after (concat (map (failedAttempt E t dl cip rt n) [0..k - 1])
            @ [Log (FORWARD rt dl (server E t k) cip (k + 1) n),
               Exchange k (server E t k) (attemptResult E t k)])
       (upstreamSuccess L t r dl rt (server E t k) msg)"
    using upstreamLoop_first_success[of 0 k n E t msg L r dl cip rt None] assms(3-6) by simp
  finally show ?thesis .
qed

text \<open>What a run of failed attempts, the fallback and a successful attempt write, sleep and ask.\<close>

lemma written_failedAttempts [simp]:
  "written (concat (map (failedAttempt E t dl cip rt n) is)) = []"
  by (induction "is") (simp_all add: failedAttempt_def)

lemma exchanges_failedAttempts [simp]:
  "exchanges (concat (map (failedAttempt E t dl cip rt n) is)) = map (\<lambda>i. (i, server E t i)) is"
  by (induction "is") (simp_all add: failedAttempt_def)

lemma sleeps_failedAttempts:
  "(\<And>i. i \<in> set is \<Longrightarrow> i < n - 1) \<Longrightarrow>
   sleeps (concat (map (failedAttempt E t dl cip rt n) is))
     = replicate (length is) (100 * Millisecond)"
  by (induction "is") (simp_all add: failedAttempt_def)

lemma sleeps_last_failedAttempt [simp]:
  "sleeps (failedAttempt E t dl cip rt n (n - 1)) = []"
  by (simp add: failedAttempt_def)

lemma sendFallbackOrEmpty_written:
  "Question r = q # qs \<Longrightarrow>
   written (sendFallbackOrEmpty L t r dl rt reason')
     = [(SetReply new_Msg r)\<lparr>Answer := synthesize L (options t) q\<rparr>]"
  by (simp add: sendFallbackOrEmpty_def synthesize_def Let_def)

lemma sendFallbackOrEmpty_quiet [simp]:
  "sleeps (sendFallbackOrEmpty L t r dl rt reason') = []"
  "exchanges (sendFallbackOrEmpty L t r dl rt reason') = []"
  by (simp_all add: sendFallbackOrEmpty_def Let_def split: list.splits)

lemma upstreamSuccess_written [simp]:
  "written (snd (upstreamSuccess L t r dl rt srv msg)) = [msg]"
  by (simp add: upstreamSuccess_def Let_def split: option.splits list.splits)

lemma upstreamSuccess_quiet [simp]:
  "sleeps (snd (upstreamSuccess L t r dl rt srv msg)) = []"
  "exchanges (snd (upstreamSuccess L t r dl rt srv msg)) = []"
  by (simp_all add: upstreamSuccess_def Let_def split: option.splits list.splits)

lemma succeeded_iff: "succeeded res = Some m \<longleftrightarrow> res = (Some m, None)"
  by (cases res rule: succeeded.cases) auto

text \<open>
  C3: with servers configured, the loop makes \<open>n = max 1 UpstreamRetries\<close> attempts at
  most. Attempt \<open>i\<close> asks the server that \<open>PickRandom\<close> draws from the whole configured
  list at that attempt (the draw is a parameter of the model: any sequence of draws is
  covered, its distribution is the library's). An attempt succeeds exactly when the
  exchange returns a message and no error. If all \<open>n\<close> attempts fail, the run is the \<open>n\<close>
  failed attempts, with a pause of 100 ms after each but the last, then the report of the
  error of the last attempt, then the fallback. If attempt \<open>k\<close> is the first to succeed,
  the run is the \<open>k\<close> failed attempts before it, each followed by a pause of 100 ms, then
  that exchange and its message written as the answer: no later attempt is made.
\<close>

theorem upstream_retry_loop:
  assumes servers: "UpstreamServers (options t) \<noteq> []"
    and n: "n = max 1 (UpstreamRetries (options t))"
  shows "(succeeded res = Some m \<longleftrightarrow> res = (Some m, None))
    \<and> ((\<forall>i. 0 \<le> i \<and> i < n \<longrightarrow> succeeded (attemptResult E t i) = None) \<longrightarrow>
         forwardToUpstream L E t r dl cip rt =
           (t, concat (map (failedAttempt E t dl cip rt n) [0..n - 1])
               @ [Log (ERROR_all_failed rt dl n (snd (attemptResult E t (n - 1))))]
               @ sendFallbackOrEmpty L t r dl rt
                   (upstream_failed (snd (attemptResult E t (n - 1)))))
         \<and> exchanges (snd (forwardToUpstream L E t r dl cip rt))
             = map (\<lambda>i. (i, PickRandom E i (UpstreamServers (options t)))) [0..n - 1]
         \<and> sleeps (snd (forwardToUpstream L E t r dl cip rt))
             = replicate (nat (n - 1)) (100 * Millisecond))
    \<and> (0 \<le> k \<and> k < n \<and> (\<forall>i. 0 \<le> i \<and> i < k \<longrightarrow> succeeded (attemptResult E t i) = None)
         \<and> succeeded (attemptResult E t k) = Some msg \<longrightarrow>
         forwardToUpstream L E t r dl cip rt =
           after (concat (map (failedAttempt E t dl cip rt n) [0..k - 1])
                  @ [Log (FORWARD rt dl (server E t k) cip (k + 1) n),
                     Exchange k (server E t k) (attemptResult E t k)])
             (upstreamSuccess L t r dl rt (server E t k) msg)
         \<and> exchanges (snd (forwardToUpstream L E t r dl cip rt))
             = map (\<lambda>i. (i, PickRandom E i (UpstreamServers (options t)))) [0..k]
         \<and> sleeps (snd (forwardToUpstream L E t r dl cip rt))
             = replicate (nat k) (100 * Millisecond)
         \<and> written (snd (forwardToUpstream L E t r dl cip rt)) = [msg])"
proof (intro conjI impI)
  show "succeeded res = Some m \<longleftrightarrow> res = (Some m, None)"
    by (rule succeeded_iff)
next
  assume fail: "\<forall>i. 0 \<le> i \<and> i < n \<longrightarrow> succeeded (attemptResult E t i) = None"
  have pos: "0 < n" using n by simp
  show run: "forwardToUpstream L E t r dl cip rt =
           (t, concat (map (failedAttempt E t dl cip rt n) [0..n - 1])
               @ [Log (ERROR_all_failed rt dl n (snd (attemptResult E t (n - 1))))]
               @ sendFallbackOrEmpty L t r dl rt
                   (upstream_failed (snd (attemptResult E t (n - 1)))))"
    using forwardToUpstream_all_fail[OF servers n] fail by blast
  show "exchanges (snd (forwardToUpstream L E t r dl cip rt))
             = map (\<lambda>i. (i, PickRandom E i (UpstreamServers (options t)))) [0..n - 1]"
    by (simp add: run server_def)
  have split: "[0..n - 1] = [0..n - 1 - 1] @ [n - 1]"
    using pos by (simp add: upto_rec2)
  have "sleeps (concat (map (failedAttempt E t dl cip rt n) [0..n - 1 - 1]))
          = replicate (length [0..n - 1 - 1]) (100 * Millisecond)"
    by (rule sleeps_failedAttempts) simp
  then show "sleeps (snd (forwardToUpstream L E t r dl cip rt))
             = replicate (nat (n - 1)) (100 * Millisecond)"
    using pos by (simp add: run split)
next
  assume h: "0 \<le> k \<and> k < n \<and> (\<forall>i. 0 \<le> i \<and> i < k \<longrightarrow> succeeded (attemptResult E t i) = None)
         \<and> succeeded (attemptResult E t k) = Some msg"
  show run: "forwardToUpstream L E t r dl cip rt =
           after (concat (map (failedAttempt E t dl cip rt n) [0..k - 1])
                  @ [Log (FORWARD rt dl (server E t k) cip (k + 1) n),
                     Exchange k (server E t k) (attemptResult E t k)])
             (upstreamSuccess L t r dl rt (server E t k) msg)"
    using forwardToUpstream_first_success[OF servers n, of k E msg] h by blast
  have split: "[0..k] = [0..k - 1] @ [k]"
    using h by (simp add: upto_rec2)
  show "exchanges (snd (forwardToUpstream L E t r dl cip rt))
             = map (\<lambda>i. (i, PickRandom E i (UpstreamServers (options t)))) [0..k]"
    by (simp add: run after_def split server_def)
  have "sleeps (concat (map (failedAttempt E t dl cip rt n) [0..k - 1]))
          = replicate (length [0..k - 1]) (100 * Millisecond)"
    using h by (intro sleeps_failedAttempts) simp
  then show "sleeps (snd (forwardToUpstream L E t r dl cip rt))
             = replicate (nat k) (100 * Millisecond)"
    using h by (simp add: run after_def)
  show "written (snd (forwardToUpstream L E t r dl cip rt)) = [msg]"
    by (simp add: run after_def)
qed


theorem upstream_retry_loop_witness:
  "UpstreamServers (options threeTries) \<noteq> []
   \<and> exchanges (snd (forwardToUpstream sampleLib answeringThird threeTries sampleQuery ''x.com''
                       ''192.0.2.7:5353'' ''A''))
       = [(0, ''1.1.1.1:53''), (1, ''1.1.1.1:53''), (2, ''1.1.1.1:53'')]
   \<and> sleeps (snd (forwardToUpstream sampleLib answeringThird threeTries sampleQuery ''x.com''
                    ''192.0.2.7:5353'' ''A''))
       = [100 * Millisecond, 100 * Millisecond]
   \<and> written (snd (forwardToUpstream sampleLib answeringThird threeTries sampleQuery ''x.com''
                     ''192.0.2.7:5353'' ''A''))
       = [sampleUpstreamMsg]
   \<and> exchanges (snd (forwardToUpstream sampleLib timingOut noRetries sampleQuery ''x.com''
                       ''192.0.2.7:5353'' ''A''))
       = [(0, ''1.1.1.1:53'')]
   \<and> sleeps (snd (forwardToUpstream sampleLib timingOut noRetries sampleQuery ''x.com''
                    ''192.0.2.7:5353'' ''A''))
       = []"
proof -
  have servers3: "UpstreamServers (options threeTries) \<noteq> []"
    by (simp add: threeTries_def sampleServer_def DefaultOptions_def)
  have n3: "3 = max 1 (UpstreamRetries (options threeTries))"
    by (simp add: threeTries_def sampleServer_def DefaultOptions_def)
  have third: "0 \<le> (2::int) \<and> (2::int) < 3
      \<and> (\<forall>i. 0 \<le> i \<and> i < 2 \<longrightarrow> succeeded (attemptResult answeringThird threeTries i) = None)
      \<and> succeeded (attemptResult answeringThird threeTries 2) = Some sampleUpstreamMsg"
    by (simp add: attemptResult_def answeringThird_def)
  have picks3: "\<And>i. PickRandom answeringThird i (UpstreamServers (options threeTries))
      = ''1.1.1.1:53''"
    by (simp add: answeringThird_def firstServer_def threeTries_def sampleServer_def
        DefaultOptions_def)
  have run3: "exchanges (snd (forwardToUpstream sampleLib answeringThird threeTries sampleQuery
                  ''x.com'' ''192.0.2.7:5353'' ''A''))
        = map (\<lambda>i. (i, PickRandom answeringThird i (UpstreamServers (options threeTries)))) [0..2]
      \<and> sleeps (snd (forwardToUpstream sampleLib answeringThird threeTries sampleQuery
                  ''x.com'' ''192.0.2.7:5353'' ''A''))
        = replicate (nat 2) (100 * Millisecond)
      \<and> written (snd (forwardToUpstream sampleLib answeringThird threeTries sampleQuery
                  ''x.com'' ''192.0.2.7:5353'' ''A''))
        = [sampleUpstreamMsg]"
    using upstream_retry_loop [OF servers3 n3, where E = answeringThird and k = 2
        and msg = sampleUpstreamMsg and L = sampleLib and r = sampleQuery and dl = "''x.com''"
        and cip = "''192.0.2.7:5353''" and rt = "''A''"] third
    by blast
  have servers0: "UpstreamServers (options noRetries) \<noteq> []"
    by (simp add: noRetries_def sampleServer_def DefaultOptions_def)
  have n0: "1 = max 1 (UpstreamRetries (options noRetries))"
    by (simp add: noRetries_def sampleServer_def DefaultOptions_def)
  have none: "\<forall>i. 0 \<le> i \<and> i < 1 \<longrightarrow> succeeded (attemptResult timingOut noRetries i) = None"
    by (simp add: attemptResult_def timingOut_def)
  have picks0: "\<And>i. PickRandom timingOut i (UpstreamServers (options noRetries))
      = ''1.1.1.1:53''"
    by (simp add: timingOut_def firstServer_def noRetries_def sampleServer_def
        DefaultOptions_def)
  have run0: "exchanges (snd (forwardToUpstream sampleLib timingOut noRetries sampleQuery
                  ''x.com'' ''192.0.2.7:5353'' ''A''))
        = map (\<lambda>i. (i, PickRandom timingOut i (UpstreamServers (options noRetries)))) [0..1 - 1]
      \<and> sleeps (snd (forwardToUpstream sampleLib timingOut noRetries sampleQuery
                  ''x.com'' ''192.0.2.7:5353'' ''A''))
        = replicate (nat (1 - 1)) (100 * Millisecond)"
    using upstream_retry_loop [OF servers0 n0, where E = timingOut
        and L = sampleLib and r = sampleQuery and dl = "''x.com''"
        and cip = "''192.0.2.7:5353''" and rt = "''A''"] none
    by blast
  have upto2: "[0..2::int] = [0, 1, 2]"
    by (simp add: upto_rec1)
  show ?thesis
    using servers3 run3 run0
    by (simp add: picks3 picks0 upto2 numeral_2_eq_2)
qed

subsection \<open>The fallback answer\<close>

text \<open>
  C6: when no upstream server is configured, or every attempt fails, the handler writes
  one message. Its answer section is empty when the fallback toggle is off, when the type
  asked is neither \<open>A\<close> nor \<open>AAAA\<close>, or when the default address for the type is the empty
  string; otherwise it is the one record of the type asked, under the name asked, that
  holds the configured default address, with TTL 0.
\<close>

theorem fallback_synthesis:
  assumes q: "Question r = q # qs"
    and exhausted: "UpstreamServers (options t) = []
       \<or> (\<forall>i. 0 \<le> i \<and> i < max 1 (UpstreamRetries (options t))
              \<longrightarrow> succeeded (attemptResult E t i) = None)"
  shows "\<exists>m. written (snd (forwardToUpstream L E t r dl cip rt)) = [m]
     \<and> Answer m =
         (if \<not> FallbackResponse (options t) then []
          else if Qtype q = TypeA \<and> DefaultA (options t) \<noteq> [] then
            [dns_A \<lparr>Hdr_Name = Name q, Rrtype = TypeA, Class = ClassINET, Ttl = 0\<rparr>
               (ParseIP L (DefaultA (options t)))]
          else if Qtype q = TypeAAAA \<and> DefaultAAAA (options t) \<noteq> [] then
            [dns_AAAA \<lparr>Hdr_Name = Name q, Rrtype = TypeAAAA, Class = ClassINET, Ttl = 0\<rparr>
               (ParseIP L (DefaultAAAA (options t)))]
          else [])"
proof (cases "UpstreamServers (options t) = []")
  case True
  then have "written (snd (forwardToUpstream L E t r dl cip rt))
      = [(SetReply new_Msg r)\<lparr>Answer := synthesize L (options t) q\<rparr>]"
    by (simp add: forwardToUpstream_def sendFallbackOrEmpty_written[OF q])
  then show ?thesis
    by (simp add: synthesize_def)
next
  case False
  with exhausted have fail: "\<And>i. 0 \<le> i \<Longrightarrow> i < max 1 (UpstreamRetries (options t))
      \<Longrightarrow> succeeded (attemptResult E t i) = None"
    by blast
  have "written (snd (forwardToUpstream L E t r dl cip rt))
      = [(SetReply new_Msg r)\<lparr>Answer := synthesize L (options t) q\<rparr>]"
    by (simp add: forwardToUpstream_all_fail[OF False refl fail] sendFallbackOrEmpty_written[OF q])
  then show ?thesis
    by (simp add: synthesize_def)
qed


theorem fallback_synthesis_witness:
  "Question sampleQuery = [sampleQuestion]
   \<and> map Answer (written (snd (forwardToUpstream sampleLib timingOut fallbackServer sampleQuery
                                 ''x.com'' ''192.0.2.7:5353'' ''A'')))
       = [[dns_A \<lparr>Hdr_Name = ''x.com.'', Rrtype = TypeA, Class = ClassINET, Ttl = 0\<rparr>
             [127, 0, 0, 1]]]
   \<and> map Answer (written (snd (forwardToUpstream sampleLib timingOut fallbackServer
                                 (sampleQuery\<lparr>Question := [sampleQuestion\<lparr>Qtype := TypeAAAA\<rparr>]\<rparr>)
                                 ''x.com'' ''192.0.2.7:5353'' ''AAAA'')))
       = [[]]"
proof -
  have q: "Question sampleQuery = sampleQuestion # []"
    by (simp add: sampleQuery_def)
  have q': "Question (sampleQuery\<lparr>Question := [sampleQuestion\<lparr>Qtype := TypeAAAA\<rparr>]\<rparr>)
      = sampleQuestion\<lparr>Qtype := TypeAAAA\<rparr> # []"
    by simp
  have exhausted: "UpstreamServers (options fallbackServer) = []
       \<or> (\<forall>i. 0 \<le> i \<and> i < max 1 (UpstreamRetries (options fallbackServer))
              \<longrightarrow> succeeded (attemptResult timingOut fallbackServer i) = None)"
    by (simp add: attemptResult_def timingOut_def)
  obtain m where m: "written (snd (forwardToUpstream sampleLib timingOut fallbackServer
        sampleQuery ''x.com'' ''192.0.2.7:5353'' ''A'')) = [m]"
    "Answer m = [dns_A \<lparr>Hdr_Name = ''x.com.'', Rrtype = TypeA, Class = ClassINET, Ttl = 0\<rparr>
             [127, 0, 0, 1]]"
    using fallback_synthesis [OF q exhausted, of sampleLib "''x.com''" "''192.0.2.7:5353''" "''A''"]
    by (auto simp add: fallbackServer_def sampleServer_def DefaultOptions_def
        sampleQuestion_def sampleLib_def)
  obtain m' where m': "written (snd (forwardToUpstream sampleLib timingOut fallbackServer
        (sampleQuery\<lparr>Question := [sampleQuestion\<lparr>Qtype := TypeAAAA\<rparr>]\<rparr>)
        ''x.com'' ''192.0.2.7:5353'' ''AAAA'')) = [m']"
    "Answer m' = []"
    using fallback_synthesis [OF q' exhausted, of sampleLib "''x.com''" "''192.0.2.7:5353''"
        "''AAAA''"]
    by (auto simp add: fallbackServer_def sampleServer_def DefaultOptions_def
        sampleQuestion_def sampleLib_def)
  show ?thesis
    using q m m' by simp
qed

subsection \<open>The authoritative bit\<close>

text \<open>No message of \<open>sendFallbackOrEmpty\<close> is marked authoritative.\<close>

lemma sendFallbackOrEmpty_not_authoritative:
  "list_all (\<lambda>m. \<not> Authoritative m) (written (sendFallbackOrEmpty L t r dl rt why))"
  by (simp add: sendFallbackOrEmpty_def Let_def split: list.splits)

text \<open>
  C5 at the input of the specification's fallback scenario (fallback on, default address
  \<open>127.0.0.1\<close>, an \<open>A\<close> query, every upstream attempt timing out): the handler writes one
  message with the one synthesized record, and its authoritative bit is not set.
  \<open>sendFallbackOrEmpty\<close> never sets the bit, unlike the two other builders.
\<close>

theorem fallback_answer_not_authoritative:
  "map (\<lambda>m. (Authoritative m, Answer m))
     (written (snd (ServeDNS sampleLib timingOut fallbackServer ''192.0.2.7:5353'' sampleQuery)))
   = [(False, [dns_A \<lparr>Hdr_Name = ''x.com.'', Rrtype = TypeA, Class = ClassINET, Ttl = 0\<rparr>
                 [127, 0, 0, 1]])]"
  by (simp add: ServeDNS_def fallbackServer_def sampleServer_def DefaultOptions_def
      sampleQuery_def sampleQuestion_def new_Msg_def supported_def handleDNSQuery_def after_def
      forwardToUpstream_def upstreamLoop.simps timingOut_def firstServer_def Let_def
      sendFallbackOrEmpty_def sampleLib_def SetReply_def TrimSuffix_def HasSuffix_def)


subsection \<open>The shape of a run\<close>

lemma tier_of_local [simp]:
  "tier_of (Log (RESPONSE rt dl from_config)) = None"
  "tier_of (Log (RESPONSE rt dl from_memory)) = None"
  "tier_of (Log (RESPONSE rt dl from_wildcard)) = None"
  "tier_of (Log (RESPONSE rt dl from_cache)) = None"
  by simp_all

lemma consulted_append [simp]: "consulted (xs @ ys) = consulted xs @ consulted ys"
  by (induction xs) (simp_all split: option.splits)

lemma first_success_or_none:
  fixes a n :: int
  shows "(\<forall>i. a \<le> i \<and> i < n \<longrightarrow> P i)
     \<or> (\<exists>k. a \<le> k \<and> k < n \<and> \<not> P k \<and> (\<forall>i. a \<le> i \<and> i < k \<longrightarrow> P i))"
proof (cases "\<forall>i. a \<le> i \<and> i < n \<longrightarrow> P i")
  case True
  then show ?thesis by blast
next
  case False
  then obtain j where j: "a \<le> j" "j < n" "\<not> P j"
    by blast
  define Q where "Q m = (\<not> P (a + int m))" for m
  have "Q (nat (j - a))"
    using j by (simp add: Q_def)
  then have least: "Q (LEAST m. Q m)"
    by (rule LeastI)
  have below: "\<And>m. m < (LEAST m. Q m) \<Longrightarrow> \<not> Q m"
    by (rule not_less_Least)
  have le: "(LEAST m. Q m) \<le> nat (j - a)"
    using \<open>Q (nat (j - a))\<close> by (rule Least_le)
  define k where "k = a + int (LEAST m. Q m)"
  have "a \<le> k" "k < n" "\<not> P k"
    using least le j by (auto simp add: k_def Q_def)
  moreover have "P i" if "a \<le> i" "i < k" for i
  proof -
    have "nat (i - a) < (LEAST m. Q m)"
      using that by (simp add: k_def)
    then have "\<not> Q (nat (i - a))"
      by (rule below)
    then show ?thesis
      using that by (simp add: Q_def)
  qed
  ultimately show ?thesis
    by blast
qed

text \<open>The three ways a run of forwardToUpstream can go.\<close>

lemma forwardToUpstream_cases:
  obtains
    (no_servers) "UpstreamServers (options t) = []"
      "forwardToUpstream L E t r dl cip rt
         = (t, sendFallbackOrEmpty L t r dl rt no_upstream_servers)"
  | (all_fail) "UpstreamServers (options t) \<noteq> []"
      "\<And>i. 0 \<le> i \<Longrightarrow> i < attempts t \<Longrightarrow> succeeded (attemptResult E t i) = None"
      "forwardToUpstream L E t r dl cip rt =
        (t, concat (map (failedAttempt E t dl cip rt (attempts t)) [0..attempts t - 1])
         @ [Log (ERROR_all_failed rt dl (attempts t) (snd (attemptResult E t (attempts t - 1))))]
         @ sendFallbackOrEmpty L t r dl rt
             (upstream_failed (snd (attemptResult E t (attempts t - 1)))))"
  | (success) k msg where "UpstreamServers (options t) \<noteq> []" "0 \<le> k" "k < attempts t"
      "\<And>i. 0 \<le> i \<Longrightarrow> i < k \<Longrightarrow> succeeded (attemptResult E t i) = None"
      "succeeded (attemptResult E t k) = Some msg"
      "forwardToUpstream L E t r dl cip rt =
         after (concat (map (failedAttempt E t dl cip rt (attempts t)) [0..k - 1])
            @ [Log (FORWARD rt dl (server E t k) cip (k + 1) (attempts t)),
               Exchange k (server E t k) (attemptResult E t k)])
           (upstreamSuccess L t r dl rt (server E t k) msg)"
proof (cases "UpstreamServers (options t) = []")
  case True
  then show ?thesis
    using no_servers by (simp add: forwardToUpstream_def)
next
  case False
  have n: "attempts t = max 1 (UpstreamRetries (options t))"
    by (simp add: attempts_def)
  consider "\<forall>i. 0 \<le> i \<and> i < attempts t \<longrightarrow> succeeded (attemptResult E t i) = None"
    | k where "0 \<le> k" "k < attempts t" "succeeded (attemptResult E t k) \<noteq> None"
        "\<forall>i. 0 \<le> i \<and> i < k \<longrightarrow> succeeded (attemptResult E t i) = None"
    using first_success_or_none[of 0 "attempts t" "\<lambda>i. succeeded (attemptResult E t i) = None"]
    by blast
  then show ?thesis
  proof cases
    case 1
    then show ?thesis
      using all_fail[OF False] forwardToUpstream_all_fail[OF False n, of E] by blast
  next
    case 2
    then obtain msg where "succeeded (attemptResult E t k) = Some msg"
      by blast
    then show ?thesis
      using success[OF False 2(1,2)] 2(4)
        forwardToUpstream_first_success[OF False n 2(1,2)] by blast
  qed
qed


lemma cacheSets_append [simp]: "cacheSets (xs @ ys) = cacheSets xs @ cacheSets ys"
  by (induction xs rule: cacheSets.induct) simp_all

lemma successes_append [simp]: "successes (xs @ ys) = successes xs @ successes ys"
  by (induction xs rule: successes.induct) (simp_all split: option.splits)

lemma failedAttempts_consulted [simp]:
  "consulted (concat (map (failedAttempt E t dl cip rt n) is)) = replicate (length is) Upstream"
  by (induction "is") (simp_all add: failedAttempt_def)

lemma failedAttempts_cacheSets [simp]:
  "cacheSets (concat (map (failedAttempt E t dl cip rt n) is)) = []"
  by (induction "is") (simp_all add: failedAttempt_def)

lemma failedAttempts_successes:
  "(\<And>i. i \<in> set is \<Longrightarrow> succeeded (attemptResult E t i) = None) \<Longrightarrow>
   successes (concat (map (failedAttempt E t dl cip rt n) is)) = []"
  by (induction "is") (simp_all add: failedAttempt_def)

lemma failedAttempt_no_Panic [simp]:
  "Panic \<notin> set (failedAttempt E t dl cip rt n i)"
  by (simp add: failedAttempt_def)

lemma sendFallbackOrEmpty_consulted [simp]:
  "consulted (sendFallbackOrEmpty L t r dl rt why) = [Fallback]"
  by (simp add: sendFallbackOrEmpty_def Let_def split: list.splits)

lemma sendFallbackOrEmpty_silent [simp]:
  "cacheSets (sendFallbackOrEmpty L t r dl rt why) = []"
  "successes (sendFallbackOrEmpty L t r dl rt why) = []"
  "Panic \<notin> set (sendFallbackOrEmpty L t r dl rt why)"
  by (simp_all add: sendFallbackOrEmpty_def Let_def split: list.splits)

lemma upstreamSuccess_consulted [simp]:
  "consulted (snd (upstreamSuccess L t r dl rt srv msg)) = []"
  "successes (snd (upstreamSuccess L t r dl rt srv msg)) = []"
  by (simp_all add: upstreamSuccess_def Let_def split: option.splits list.splits)

lemma upstreamSuccess_cacheSets:
  "Question r = q # qs \<Longrightarrow>
   cacheSets (snd (upstreamSuccess L t r dl rt srv msg)) =
     (if UseDiskCache (options t) \<and> Answer msg \<noteq> [] then
        (case gobEncode L (extractDnsRecord L msg) of
           Some b \<Rightarrow> [(Name q @ rt, b)]
         | None \<Rightarrow> [])
      else [])"
  by (simp add: upstreamSuccess_def Let_def split: option.splits)

lemma upstreamSuccess_state:
  "Question r = q # qs \<Longrightarrow>
   fst (upstreamSuccess L t r dl rt srv msg) =
     (if UseDiskCache (options t) \<and> Answer msg \<noteq> [] then
        (case gobEncode L (extractDnsRecord L msg) of
           Some b \<Rightarrow> t\<lparr>hm := (hm t)(Name q @ rt \<mapsto> b)\<rparr>
         | None \<Rightarrow> t)
      else t)"
  by (simp add: upstreamSuccess_def Let_def split: option.splits)

lemma upstreamSuccess_no_Panic:
  "Question r = q # qs \<Longrightarrow> Panic \<notin> set (snd (upstreamSuccess L t r dl rt srv msg))"
  by (simp add: upstreamSuccess_def Let_def split: option.splits)

lemma sorted_upstream_then_fallback [simp]:
  "sorted (map rank (replicate j Upstream @ [Fallback]))"
  "sorted (map rank (replicate j Upstream))"
  by (simp_all add: sorted_append)

text \<open>A run of forwardToUpstream asks upstream, then possibly falls back.\<close>

lemma forwardToUpstream_consulted:
  "\<exists>j. consulted (snd (forwardToUpstream L E t r dl cip rt)) = replicate j Upstream @ [Fallback]
     \<or> consulted (snd (forwardToUpstream L E t r dl cip rt)) = replicate (Suc j) Upstream"
proof (cases rule: forwardToUpstream_cases[of t L E r dl cip rt])
  case no_servers
  then show ?thesis
    by (simp add: exI[of _ 0])
next
  case all_fail
  show ?thesis
    by (rule exI[of _ "length [0..attempts t - 1]"])
      (simp add: all_fail(3) del: length_upto)
next
  case (success k msg)
  have "replicate (length [0..k - 1]) Upstream @ [Upstream]
          = replicate (Suc (length [0..k - 1])) Upstream"
    by (simp add: replicate_append_same)
  then show ?thesis
    by (intro exI[of _ "length [0..k - 1]"]) (simp add: success(6) after_def del: length_upto)
qed

lemma forwardToUpstream_no_Panic:
  "Question r = q # qs \<Longrightarrow> Panic \<notin> set (snd (forwardToUpstream L E t r dl cip rt))"
  by (cases rule: forwardToUpstream_cases[of t L E r dl cip rt])
    (simp_all add: after_def upstreamSuccess_no_Panic)


lemma RuleChecks_projections [simp]:
  "written (map RuleCheck rs) = []"
  "cacheSets (map RuleCheck rs) = []"
  "successes (map RuleCheck rs) = []"
  "consulted (map RuleCheck rs) = replicate (length rs) Config"
  by (induction rs) simp_all

lemma rulesLoop_shape:
  "(\<exists>n. fst (rulesLoop L E t r q dl cip rt rs) = map RuleCheck (take n rs))
   \<and> (snd (rulesLoop L E t r q dl cip rt rs) = None
      \<or> snd (rulesLoop L E t r q dl cip rt rs) = Some (forwardToUpstream L E t r dl cip rt)
      \<or> (\<exists>rule. snd (rulesLoop L E t r q dl cip rt rs)
            = Some (t, [WriteMsg (createResponseFromConfig L t r (Name q) rule (Qtype q)),
                        Log (RESPONSE rt dl from_config)])))"
proof (induction rs)
  case Nil
  then show ?case by simp
next
  case (Cons rule rest)
  show ?case
  proof (cases "matchesDomain dl (Domain rule) \<and> Type rule = rt")
    case True
    have "fst (rulesLoop L E t r q dl cip rt (rule # rest)) = map RuleCheck (take 1 (rule # rest))"
      using True by simp
    then have "\<exists>n. fst (rulesLoop L E t r q dl cip rt (rule # rest))
        = map RuleCheck (take n (rule # rest))" ..
    then show ?thesis
      using True by auto
  next
    case False
    from Cons obtain n where n: "fst (rulesLoop L E t r q dl cip rt rest) = map RuleCheck (take n rest)"
      by blast
    have "fst (rulesLoop L E t r q dl cip rt (rule # rest))
        = map RuleCheck (take (Suc n) (rule # rest))"
      using False n by (auto simp add: case_prod_beta)
    then have "\<exists>n. fst (rulesLoop L E t r q dl cip rt (rule # rest))
        = map RuleCheck (take n (rule # rest))" ..
    moreover have "snd (rulesLoop L E t r q dl cip rt (rule # rest))
        = snd (rulesLoop L E t r q dl cip rt rest)"
      using False by (auto simp add: case_prod_beta)
    ultimately show ?thesis
      using Cons by simp
  qed
qed

lemma handleDNSQuery_cases:
  assumes "Question r = q # qs"
  obtains
    (answered) pre m src where
      "handleDNSQuery L E t r dl cip rt qtype = (t, pre @ [WriteMsg m, Log (RESPONSE rt dl src)])"
      "local_reads pre" "set (consulted pre) \<subseteq> {Exact, Wildcard, Cache}"
      "tier_of (Log (RESPONSE rt dl src)) = None"
  | (forwarded) pre where
      "handleDNSQuery L E t r dl cip rt qtype = after pre (forwardToUpstream L E t r dl cip rt)"
      "local_reads pre" "set (consulted pre) \<subseteq> {Exact, Wildcard, Cache}"
proof (cases "DnsRecords (options t) dl")
  case (Some d)
  show ?thesis
    by (rule answered[of "[MemoryLookup dl]" _ from_memory])
      (simp_all add: handleDNSQuery_def Let_def assms Some local_reads_def)
next
  case None
  note exact = None
  show ?thesis
  proof (cases "DnsRecords (options t) ''*''")
    case (Some d)
    show ?thesis
      by (rule answered[of "[MemoryLookup dl, WildcardLookup]" _ from_wildcard])
        (simp_all add: handleDNSQuery_def Let_def assms exact Some local_reads_def after_def)
  next
    case None
    note wild = None
    show ?thesis
    proof (cases "UseDiskCache (options t)")
      case False
      show ?thesis
        by (rule forwarded[of "[MemoryLookup dl, WildcardLookup]"])
          (simp_all add: handleDNSQuery_def Let_def assms exact wild False local_reads_def after_def)
    next
      case True
      show ?thesis
      proof (cases "hm t (Name q @ rt)")
        case None
        show ?thesis
          by (rule forwarded[of "[MemoryLookup dl, WildcardLookup, CacheGet (Name q @ rt)]"])
            (simp_all add: handleDNSQuery_def Let_def assms exact wild True None local_reads_def
              after_def)
      next
        case (Some b)
        show ?thesis
        proof (cases "gobDecode L b")
          case None
          show ?thesis
            by (rule forwarded[of "[MemoryLookup dl, WildcardLookup, CacheGet (Name q @ rt)]"])
              (simp_all add: handleDNSQuery_def Let_def assms exact wild True Some None local_reads_def
                after_def)
        next
          case (Some d)
          show ?thesis
            by (rule answered[of "[MemoryLookup dl, WildcardLookup, CacheGet (Name q @ rt)]" _
                  from_cache])
              (simp_all add: handleDNSQuery_def Let_def assms exact wild True \<open>hm t (Name q @ rt) = Some b\<close>
                Some local_reads_def after_def)
        qed
      qed
    qed
  qed
qed

lemma local_reads_rules:
  "local_reads pre \<Longrightarrow> set (consulted pre) \<subseteq> {Exact, Wildcard, Cache} \<Longrightarrow>
   local_reads (Log (REQUEST rt dl op cip) # map RuleCheck rs @ pre)"
  by (auto simp add: local_reads_def sorted_append)

lemma local_reads_rules_only:
  "local_reads (Log (REQUEST rt dl op cip) # map RuleCheck rs)"
  by (auto simp add: local_reads_def)


lemma ServeDNS_cases:
  assumes q: "Question r = q # qs"
  obtains
    (answered) pre m src where
      "ServeDNS L E t cip r
         = (t, pre @ [WriteMsg m,
                      Log (RESPONSE (TypeToString L (Qtype q)) (TrimSuffix (Name q) ''.'') src)])"
      "local_reads pre"
      "tier_of (Log (RESPONSE (TypeToString L (Qtype q)) (TrimSuffix (Name q) ''.'') src)) = None"
  | (forwarded) pre where
      "ServeDNS L E t cip r
         = after pre (forwardToUpstream L E t r (TrimSuffix (Name q) ''.'') cip
                        (TypeToString L (Qtype q)))"
      "local_reads pre"
proof -
  define dl where "dl = TrimSuffix (Name q) ''.''"
  define rt where "rt = TypeToString L (Qtype q)"
  define rl where "rl = (case config t of None \<Rightarrow> ([], None)
                         | Some c \<Rightarrow> rulesLoop L E t r q dl cip rt (Records c))"
  define request where "request = Log (REQUEST rt dl (Opcode r) cip)"
  have run: "ServeDNS L E t cip r =
      after (request # fst rl)
        (case snd rl of
           Some res \<Rightarrow> res
         | None \<Rightarrow> if supported (Qtype q) then handleDNSQuery L E t r dl cip rt (Qtype q)
                    else forwardToUpstream L E t r dl cip rt)"
    unfolding dl_def rt_def rl_def request_def
    by (simp add: ServeDNS_def q Let_def case_prod_beta)
  obtain rs where scanned: "fst rl = map RuleCheck rs"
  proof (cases "config t")
    case None
    then have "fst rl = map RuleCheck []"
      by (simp add: rl_def)
    then show ?thesis
      using that by blast
  next
    case (Some c)
    then show ?thesis
      using that rulesLoop_shape[of L E t r q dl cip rt "Records c"] by (auto simp add: rl_def)
  qed
  have outcome: "snd rl = None \<or> snd rl = Some (forwardToUpstream L E t r dl cip rt)
      \<or> (\<exists>rule. snd rl = Some (t, [WriteMsg (createResponseFromConfig L t r (Name q) rule (Qtype q)),
                                    Log (RESPONSE rt dl from_config)]))"
  proof (cases "config t")
    case None
    then show ?thesis
      by (simp add: rl_def)
  next
    case (Some c)
    then show ?thesis
      using rulesLoop_shape[of L E t r q dl cip rt "Records c"] by (simp add: rl_def)
  qed
  have rules: "local_reads (request # map RuleCheck rs)"
    unfolding request_def by (rule local_reads_rules_only)
  from outcome consider
      (none) "snd rl = None"
    | (fwd) "snd rl = Some (forwardToUpstream L E t r dl cip rt)"
    | (cfg) rec where "snd rl = Some (t, [WriteMsg (createResponseFromConfig L t r (Name q) rec
                                                     (Qtype q)),
                                          Log (RESPONSE rt dl from_config)])"
    by auto
  then show ?thesis
  proof cases
    case fwd
    show ?thesis
      by (rule forwarded[of "request # map RuleCheck rs"])
        (simp_all add: run fwd scanned after_def rules dl_def rt_def)
  next
    case cfg
    show ?thesis
      by (rule answered[of "request # map RuleCheck rs" _ from_config])
        (simp_all add: run cfg scanned after_def rules dl_def rt_def)
  next
    case none
    show ?thesis
    proof (cases "supported (Qtype q)")
      case False
      show ?thesis
        by (rule forwarded[of "request # map RuleCheck rs"])
          (simp_all add: run none scanned after_def rules False dl_def rt_def)
    next
      case True
      show ?thesis
        using q
      proof (cases rule: handleDNSQuery_cases[where L = L and E = E and t = t and dl = dl
            and cip = cip and rt = rt and qtype = "Qtype q"])
        case (answered pre m src)
        have "local_reads (request # map RuleCheck rs @ pre)"
          unfolding request_def using answered(2,3) by (rule local_reads_rules)
        then show ?thesis
          using answered(1,4)
          by (intro that(1)[of "request # map RuleCheck rs @ pre" m src])
            (simp_all add: run none scanned after_def True dl_def rt_def)
      next
        case (forwarded pre)
        have "local_reads (request # map RuleCheck rs @ pre)"
          unfolding request_def using forwarded(2,3) by (rule local_reads_rules)
        then show ?thesis
          using forwarded(1)
          by (intro that(2)[of "request # map RuleCheck rs @ pre"])
            (simp_all add: run none scanned after_def True dl_def rt_def)
      qed
    qed
  qed
qed

subsection \<open>Sample runs\<close>

lemma Opcode_sampleQuery: "Opcode sampleQuery = 0"
  by (simp add: sampleQuery_def new_Msg_def)

lemma sample_facts:
  "Question sampleQuery = [sampleQuestion]"
  "Name sampleQuestion = ''x.com.''"
  "Qtype sampleQuestion = TypeA"
  "TrimSuffix ''x.com.'' ''.'' = ''x.com''"
  "TypeToString sampleLib TypeA = ''A''"
  "supported TypeA"
  "Answer sampleUpstreamMsg
     = [dns_A \<lparr>Hdr_Name = ''x.com.'', Rrtype = TypeA, Class = ClassINET, Ttl = 3600\<rparr>
          [93, 184, 216, 34]]"
  "extractDnsRecord sampleLib sampleUpstreamMsg = sampleRecord"
  "gobEncode sampleLib d = Some (if d = sampleRecord then [1] else [0])"
  "gobDecode sampleLib [1] = Some sampleRecord"
  "gobDecode sampleLib [0] = None"
  by (simp_all add: sampleQuery_def sampleQuestion_def TrimSuffix_def HasSuffix_def
      sampleLib_def supported_def sampleUpstreamMsg_def extractDnsRecord_def sampleRecord_def
      emptyDnsRecord_def)

text \<open>
  The run of the handler with the default options on the sample query, upstream answering:
  the record store and the cache are read and have nothing, the first attempt succeeds,
  its message is written as it is, and what was extracted from it is stored.
\<close>

lemma sample_run:
  "ServeDNS sampleLib answering sampleServer ''192.0.2.7:5353'' sampleQuery =
     (sampleServer\<lparr>hm := [''x.com.A'' \<mapsto> [1]]\<rparr>,
      [Log (REQUEST ''A'' ''x.com'' 0 ''192.0.2.7:5353''),
       MemoryLookup ''x.com'', WildcardLookup, CacheGet ''x.com.A'',
       Log (FORWARD ''A'' ''x.com'' ''1.1.1.1:53'' ''192.0.2.7:5353'' 1 2),
       Exchange 0 ''1.1.1.1:53'' (Some sampleUpstreamMsg, None),
       WriteMsg sampleUpstreamMsg,
       Log (RESPONSE ''A'' ''x.com'' (from_upstream ''1.1.1.1:53'' 1)),
       CacheSet ''x.com.A'' [1],
       Log (CACHE_saved ''A'' ''x.com'')])"
  by (simp add: ServeDNS_def sample_facts Let_def sampleServer_def DefaultOptions_def
      handleDNSQuery_def after_def forwardToUpstream_def upstreamLoop.simps answering_def
      firstServer_def upstreamSuccess_def)
    (simp add: sampleQuery_def new_Msg_def)


lemma sample_run_empty:
  "ServeDNS sampleLib answeringEmpty sampleServer ''192.0.2.7:5353'' sampleQuery =
     (sampleServer,
      [Log (REQUEST ''A'' ''x.com'' 0 ''192.0.2.7:5353''),
       MemoryLookup ''x.com'', WildcardLookup, CacheGet ''x.com.A'',
       Log (FORWARD ''A'' ''x.com'' ''1.1.1.1:53'' ''192.0.2.7:5353'' 1 2),
       Exchange 0 ''1.1.1.1:53'' (Some (sampleUpstreamMsg\<lparr>Answer := []\<rparr>), None),
       WriteMsg (sampleUpstreamMsg\<lparr>Answer := []\<rparr>),
       Log (RESPONSE ''A'' ''x.com'' (from_upstream ''1.1.1.1:53'' 0))])"
  by (simp add: ServeDNS_def sample_facts Let_def sampleServer_def DefaultOptions_def
      handleDNSQuery_def after_def forwardToUpstream_def upstreamLoop.simps answeringEmpty_def
      firstServer_def upstreamSuccess_def)
    (simp add: sampleQuery_def new_Msg_def)

subsection \<open>Cache writes\<close>

text \<open>
  C7: in every run of the handler, the cache is written exactly when the cache is on and
  an upstream exchange succeeded with a message that has at least one answer record; and
  when no successful exchange brought an answer record, the handler's state, the cache
  with it, is what it was. The encoder is assumed not to fail, as \<open>gob\<close> does not on a
  \<open>DnsRecord\<close>; the branch for its failure is in the model and writes nothing.
\<close>

theorem cache_write_condition:
  assumes encodes: "\<And>d. gobEncode L d \<noteq> None"
  shows "(cacheSets (snd (ServeDNS L E t cip r)) \<noteq> [])
       = (UseDiskCache (options t)
          \<and> (\<exists>m \<in> set (successes (snd (ServeDNS L E t cip r))). Answer m \<noteq> []))
     \<and> ((\<forall>m \<in> set (successes (snd (ServeDNS L E t cip r))). Answer m = [])
       \<longrightarrow> fst (ServeDNS L E t cip r) = t)"
  proof (cases "Question r")
    case Nil
    then show ?thesis
      by (simp add: ServeDNS_def)
  next
    case (Cons q qs)
    show ?thesis
      using Cons
    proof (cases rule: ServeDNS_cases[where L = L and E = E and t = t and cip = cip])
      case (answered pre m src)
      then show ?thesis
        by (simp add: local_reads_def)
    next
      case (forwarded pre)
      define dl where "dl = TrimSuffix (Name q) ''.''"
      define rt where "rt = TypeToString L (Qtype q)"
      show ?thesis
      proof (cases rule: forwardToUpstream_cases[of t L E r dl cip rt])
        case no_servers
        then show ?thesis
          using forwarded by (simp add: local_reads_def after_def dl_def rt_def)
      next
        case all_fail
        have "successes (concat (map (failedAttempt E t dl cip rt (attempts t))
                [0..attempts t - 1])) = []"
          by (rule failedAttempts_successes) (simp add: all_fail(2))
        then show ?thesis
          using forwarded all_fail(3) by (simp add: local_reads_def after_def dl_def rt_def)
      next
        case (success k msg)
        have "successes (concat (map (failedAttempt E t dl cip rt (attempts t)) [0..k - 1])) = []"
          by (rule failedAttempts_successes) (simp add: success(4))
        moreover obtain b where "gobEncode L (extractDnsRecord L msg) = Some b"
          using encodes[of "extractDnsRecord L msg"] by blast
        ultimately show ?thesis
          using forwarded success(5,6)
          by (simp add: local_reads_def after_def dl_def rt_def attemptResult_def
              upstreamSuccess_cacheSets[OF Cons] upstreamSuccess_state[OF Cons])
      qed
    qed
  qed


theorem cache_write_condition_witness:
  "(\<forall>d. gobEncode sampleLib d \<noteq> None)
   \<and> UseDiskCache (options sampleServer)
   \<and> successes (snd (ServeDNS sampleLib answering sampleServer ''192.0.2.7:5353'' sampleQuery))
       = [sampleUpstreamMsg]
   \<and> Answer sampleUpstreamMsg \<noteq> []
   \<and> cacheSets (snd (ServeDNS sampleLib answering sampleServer ''192.0.2.7:5353'' sampleQuery))
       \<noteq> []
   \<and> successes (snd (ServeDNS sampleLib answeringEmpty sampleServer ''192.0.2.7:5353''
                        sampleQuery))
       = [sampleUpstreamMsg\<lparr>Answer := []\<rparr>]
   \<and> fst (ServeDNS sampleLib answeringEmpty sampleServer ''192.0.2.7:5353'' sampleQuery)
       = sampleServer"
proof -
  have encodes: "\<And>d. gobEncode sampleLib d \<noteq> None"
    by (simp add: sample_facts)
  have on: "UseDiskCache (options sampleServer)"
    by (simp add: sampleServer_def DefaultOptions_def)
  have hit: "successes (snd (ServeDNS sampleLib answering sampleServer ''192.0.2.7:5353''
      sampleQuery)) = [sampleUpstreamMsg]"
    by (simp add: sample_run)
  have empty: "successes (snd (ServeDNS sampleLib answeringEmpty sampleServer ''192.0.2.7:5353''
      sampleQuery)) = [sampleUpstreamMsg\<lparr>Answer := []\<rparr>]"
    by (simp add: sample_run_empty)
  have "cacheSets (snd (ServeDNS sampleLib answering sampleServer ''192.0.2.7:5353''
      sampleQuery)) \<noteq> []"
    using cache_write_condition[OF encodes, of answering sampleServer "''192.0.2.7:5353''"
        sampleQuery] on hit
    by (simp add: sample_facts)
  moreover have "fst (ServeDNS sampleLib answeringEmpty sampleServer ''192.0.2.7:5353''
      sampleQuery) = sampleServer"
    using cache_write_condition[OF encodes, of answeringEmpty sampleServer "''192.0.2.7:5353''"
        sampleQuery] empty
    by simp
  ultimately show ?thesis
    using encodes on hit empty by (simp add: sample_facts)
qed

subsection \<open>Rules that forward\<close>

lemma rulesLoop_first_match:
  "find (ruleMatches L q) rs = Some rule \<Longrightarrow>
   rulesLoop L E t r q (TrimSuffix (Name q) ''.'') cip (TypeToString L (Qtype q)) rs =
     (map RuleCheck (takeWhile (\<lambda>x. \<not> ruleMatches L q x) rs @ [rule]),
      Some (if Action rule = ''forward'' then
              forwardToUpstream L E t r (TrimSuffix (Name q) ''.'') cip (TypeToString L (Qtype q))
            else
              (t, [WriteMsg (createResponseFromConfig L t r (Name q) rule (Qtype q)),
                   Log (RESPONSE (TypeToString L (Qtype q)) (TrimSuffix (Name q) ''.'')
                          from_config)])))"
  by (induction rs) (auto simp add: ruleMatches_def split: if_splits)

lemma rulesLoop_no_match:
  "find (ruleMatches L q) rs = None \<Longrightarrow>
   rulesLoop L E t r q (TrimSuffix (Name q) ''.'') cip (TypeToString L (Qtype q)) rs =
     (map RuleCheck rs, None)"
  by (induction rs) (auto simp add: ruleMatches_def split: if_splits)

lemma forwardToUpstream_tiers:
  "set (consulted (snd (forwardToUpstream L E t r dl cip rt))) \<subseteq> {Upstream, Fallback}"
  using forwardToUpstream_consulted[of L E t r dl cip rt] by auto

text \<open>
  C2: when the first rule, in declaration order, whose pattern matches the name asked and
  whose type is the type asked has the action \<open>forward\<close>, the run is the request line, the
  rules looked at up to that rule, and then \<open>forwardToUpstream\<close>: the record store is not
  read (neither the name nor \<open>*\<close>) and the cache is not read, whatever they hold.
\<close>

theorem forward_rule_bypasses_local_tiers:
  assumes q: "Question r = q # qs"
    and cfg: "config t = Some c"
    and first: "find (ruleMatches L q) (Records c) = Some rule"
    and fwd: "Action rule = ''forward''"
  shows "ServeDNS L E t cip r =
       after (Log (REQUEST (TypeToString L (Qtype q)) (TrimSuffix (Name q) ''.'') (Opcode r) cip)
              # map RuleCheck (takeWhile (\<lambda>x. \<not> ruleMatches L q x) (Records c) @ [rule]))
         (forwardToUpstream L E t r (TrimSuffix (Name q) ''.'') cip (TypeToString L (Qtype q)))
     \<and> Exact \<notin> set (consulted (snd (ServeDNS L E t cip r)))
     \<and> Wildcard \<notin> set (consulted (snd (ServeDNS L E t cip r)))
     \<and> Cache \<notin> set (consulted (snd (ServeDNS L E t cip r)))"
proof -
  have run: "ServeDNS L E t cip r =
       after (Log (REQUEST (TypeToString L (Qtype q)) (TrimSuffix (Name q) ''.'') (Opcode r) cip)
              # map RuleCheck (takeWhile (\<lambda>x. \<not> ruleMatches L q x) (Records c) @ [rule]))
         (forwardToUpstream L E t r (TrimSuffix (Name q) ''.'') cip (TypeToString L (Qtype q)))"
    by (simp add: ServeDNS_def q cfg Let_def rulesLoop_first_match[OF first] fwd)
  have "set (consulted (snd (ServeDNS L E t cip r))) \<subseteq> {Config, Upstream, Fallback}"
    using forwardToUpstream_tiers[of L E t r "TrimSuffix (Name q) ''.''" cip
        "TypeToString L (Qtype q)"]
    by (auto simp add: run after_def)
  then show ?thesis
    using run by auto
qed


theorem forward_rule_bypasses_local_tiers_witness:
  "Question sampleQuery = [sampleQuestion]
   \<and> config forwardingServer = Some \<lparr>Records = [mailRule, forwardRule]\<rparr>
   \<and> find (ruleMatches sampleLib sampleQuestion) [mailRule, forwardRule] = Some forwardRule
   \<and> Action forwardRule = ''forward''
   \<and> DnsRecords (options forwardingServer) ''x.com'' = Some sampleRecord
   \<and> hm forwardingServer ''x.com.A'' = Some [1]
   \<and> Exact \<notin> set (consulted (snd (ServeDNS sampleLib answering forwardingServer
                                    ''192.0.2.7:5353'' sampleQuery)))
   \<and> Wildcard \<notin> set (consulted (snd (ServeDNS sampleLib answering forwardingServer
                                       ''192.0.2.7:5353'' sampleQuery)))
   \<and> Cache \<notin> set (consulted (snd (ServeDNS sampleLib answering forwardingServer
                                    ''192.0.2.7:5353'' sampleQuery)))"
proof -
  have q: "Question sampleQuery = sampleQuestion # []"
    by (simp add: sample_facts)
  have cfg: "config forwardingServer = Some \<lparr>Records = [mailRule, forwardRule]\<rparr>"
    by (simp add: forwardingServer_def)
  have found: "find (ruleMatches sampleLib sampleQuestion) [mailRule, forwardRule]
      = Some forwardRule"
    by (simp add: ruleMatches_def sample_facts mailRule_def forwardRule_def matchesDomain_def
        HasPrefix_def TrimPrefix_def HasSuffix_def)
  then have first: "find (ruleMatches sampleLib sampleQuestion)
      (Records \<lparr>Records = [mailRule, forwardRule]\<rparr>) = Some forwardRule"
    by simp
  have fwd: "Action forwardRule = ''forward''"
    by (simp add: forwardRule_def)
  have held: "DnsRecords (options forwardingServer) ''x.com'' = Some sampleRecord"
    "hm forwardingServer ''x.com.A'' = Some [1]"
    by (simp_all add: forwardingServer_def)
  have "Exact \<notin> set (consulted (snd (ServeDNS sampleLib answering forwardingServer
                                    ''192.0.2.7:5353'' sampleQuery)))
   \<and> Wildcard \<notin> set (consulted (snd (ServeDNS sampleLib answering forwardingServer
                                       ''192.0.2.7:5353'' sampleQuery)))
   \<and> Cache \<notin> set (consulted (snd (ServeDNS sampleLib answering forwardingServer
                                    ''192.0.2.7:5353'' sampleQuery)))"
    using forward_rule_bypasses_local_tiers[OF q cfg first fwd, of answering "''192.0.2.7:5353''"]
    by blast
  then show ?thesis
    using q cfg found fwd held by blast
qed

subsection \<open>The order of the tiers\<close>

lemma first_some_all_None:
  "(\<And>x. x \<in> set xs \<Longrightarrow> f x = None) \<Longrightarrow> first_some (map f xs) = None"
  by (induction xs) simp_all

lemma first_some_first:
  "(\<And>x. x \<in> set xs \<Longrightarrow> f x = None) \<Longrightarrow> f y = Some m \<Longrightarrow>
   first_some (map f (xs @ y # ys)) = Some m"
  by (induction xs) simp_all

lemma upto_around:
  fixes k n :: int
  assumes "0 \<le> k" "k < n"
  shows "[0..n - 1] = [0..k - 1] @ k # [k + 1..n - 1]"
proof -
  have "[0..n - 1] = [0..k - 1] @ [k..n - 1]"
    using assms by (intro upto_split1) simp_all
  also have "[k..n - 1] = k # [k + 1..n - 1]"
    using assms by (simp add: upto_rec1)
  finally show ?thesis .
qed

text \<open>What a run of forwardToUpstream writes: the first upstream success, else the fallback.\<close>

lemma forwardToUpstream_written:
  assumes q: "Question r = q # qs"
  shows "written (snd (forwardToUpstream L E t r dl cip rt))
     = [case upstreamAnswer E t of Some m \<Rightarrow> m | None \<Rightarrow> fallbackAnswer L t r q]"
proof (cases rule: forwardToUpstream_cases[of t L E r dl cip rt])
  case no_servers
  then show ?thesis
    by (simp add: upstreamAnswer_def fallbackAnswer_def sendFallbackOrEmpty_written[OF q])
next
  case all_fail
  have "first_some (map (\<lambda>i. succeeded (attemptResult E t i)) [0..attempts t - 1]) = None"
    by (rule first_some_all_None) (simp add: all_fail(2))
  then show ?thesis
    using all_fail(1)
    by (simp add: all_fail(3) upstreamAnswer_def fallbackAnswer_def
        sendFallbackOrEmpty_written[OF q])
next
  case (success k msg)
  have "first_some (map (\<lambda>i. succeeded (attemptResult E t i)) ([0..k - 1] @ k # [k + 1..attempts t - 1]))
      = Some msg"
    by (rule first_some_first) (simp_all add: success(4,5))
  then have "upstreamAnswer E t = Some msg"
    using success(1) upto_around[OF success(2,3)] by (simp add: upstreamAnswer_def)
  then show ?thesis
    by (simp add: success(6) after_def)
qed

lemma ServeDNS_in_order:
  "sorted (map rank (consulted (snd (ServeDNS L E t cip r))))"
proof (cases "Question r")
  case Nil
  then show ?thesis
    by (simp add: ServeDNS_def)
next
  case (Cons q qs)
  then show ?thesis
  proof (cases rule: ServeDNS_cases[where L = L and E = E and t = t and cip = cip])
    case (answered pre m src)
    then show ?thesis
      by (simp add: local_reads_def)
  next
    case (forwarded pre)
    obtain j where "consulted (snd (forwardToUpstream L E t r (TrimSuffix (Name q) ''.'') cip
                (TypeToString L (Qtype q)))) = replicate j Upstream @ [Fallback]
        \<or> consulted (snd (forwardToUpstream L E t r (TrimSuffix (Name q) ''.'') cip
                (TypeToString L (Qtype q)))) = replicate (Suc j) Upstream"
      using forwardToUpstream_consulted by blast
    moreover have low: "\<And>x. x \<in> set (consulted pre) \<Longrightarrow> rank x \<le> 3"
      using forwarded(2) by (auto simp add: local_reads_def)
    moreover have "sorted (map rank (consulted pre))"
      using forwarded(2) by (simp add: local_reads_def)
    ultimately show ?thesis
      by (auto simp add: forwarded(1) after_def sorted_append simp del: replicate_Suc
          dest!: low)
  qed
qed

text \<open>A run of handleDNSQuery reads the cache only when the cache is on.\<close>

lemma handleDNSQuery_cache_read:
  assumes q: "Question r = q # qs"
    and read: "Cache \<in> set (consulted (snd (handleDNSQuery L E t r dl cip rt qtype)))"
  shows "UseDiskCache (options t)"
proof (rule ccontr)
  assume off: "\<not> UseDiskCache (options t)"
  have "Cache \<notin> set (consulted (snd (forwardToUpstream L E t r dl cip rt)))"
    using forwardToUpstream_tiers[of L E t r dl cip rt] by auto
  then have "Cache \<notin> set (consulted (snd (handleDNSQuery L E t r dl cip rt qtype)))"
    using off by (simp add: handleDNSQuery_def q Let_def after_def split: option.splits)
  with read show False
    by simp
qed

lemma handleDNSQuery_written:
  assumes q: "Question r = q # qs"
  shows "written (snd (handleDNSQuery L E t r (TrimSuffix (Name q) ''.'') cip
                         (TypeToString L (Qtype q)) (Qtype q)))
     = [case first_some (tierAnswers L E t r q) of
          Some m \<Rightarrow> m
        | None \<Rightarrow> fallbackAnswer L t r q]"
  by (simp add: handleDNSQuery_def q Let_def after_def tierAnswers_def memoryAnswer_def
      wildcardAnswer_def cacheAnswer_def forwardToUpstream_written[OF q]
      split: option.splits)

text \<open>A run for a query of a supported type that no rule matches.\<close>

lemma ServeDNS_unmatched:
  assumes q: "Question r = q # qs"
    and kind: "supported (Qtype q)"
    and unmatched: "find (ruleMatches L q) (rulesOf t) = None"
  shows "ServeDNS L E t cip r =
      after (Log (REQUEST (TypeToString L (Qtype q)) (TrimSuffix (Name q) ''.'') (Opcode r) cip)
             # map RuleCheck (rulesOf t))
        (handleDNSQuery L E t r (TrimSuffix (Name q) ''.'') cip (TypeToString L (Qtype q))
           (Qtype q))"
proof (cases "config t")
  case None
  then show ?thesis
    by (simp add: ServeDNS_def q Let_def kind rulesOf_def)
next
  case (Some c)
  then have "find (ruleMatches L q) (Records c) = None"
    using unmatched by (simp add: rulesOf_def)
  then show ?thesis
    using Some by (simp add: ServeDNS_def q Let_def kind rulesOf_def rulesLoop_no_match)
qed

lemma remdups_adj_Upstream:
  "remdups_adj (replicate (Suc j) Upstream) = [Upstream]"
  "remdups_adj (replicate (Suc j) Upstream @ [Fallback]) = [Upstream, Fallback]"
  by (induction j) (simp_all add: remdups_adj_Cons)

lemma remdups_adj_Config:
  "xs \<noteq> [] \<Longrightarrow> hd xs \<noteq> Config \<Longrightarrow>
   remdups_adj (replicate n Config @ xs) = (if n = 0 then [] else [Config]) @ remdups_adj xs"
proof (induction n)
  case 0
  then show ?case by simp
next
  case (Suc n)
  have "hd (remdups_adj xs) \<noteq> Config"
    using Suc.prems by (simp add: hd_remdups_adj)
  moreover have "remdups_adj xs \<noteq> []"
    using Suc.prems by simp
  ultimately show ?case
    using Suc by (cases "remdups_adj xs") (auto simp add: remdups_adj_Cons)
qed

text \<open>The tiers a run of forwardToUpstream consults, without repetitions.\<close>

lemma forwardToUpstream_tier_list:
  "remdups_adj (consulted (snd (forwardToUpstream L E t r dl cip rt)))
     = (if UpstreamServers (options t) = [] then [Fallback] else [Upstream, Fallback])
   \<or> (UpstreamServers (options t) \<noteq> []
      \<and> remdups_adj (consulted (snd (forwardToUpstream L E t r dl cip rt))) = [Upstream])"
proof (cases rule: forwardToUpstream_cases[of t L E r dl cip rt])
  case no_servers
  then show ?thesis
    by simp
next
  case all_fail
  have "0 < attempts t"
    by (simp add: attempts_def)
  then obtain j where "length [0..attempts t - 1] = Suc j"
    by (cases "length [0..attempts t - 1]") simp_all
  then show ?thesis
    using all_fail(1) by (simp add: all_fail(3) remdups_adj_Upstream del: length_upto replicate_Suc)
next
  case (success k msg)
  have "replicate (length [0..k - 1]) Upstream @ [Upstream]
          = replicate (Suc (length [0..k - 1])) Upstream"
    by (simp add: replicate_append_same)
  then show ?thesis
    using success(1)
    by (simp add: success(6) after_def remdups_adj_Upstream del: length_upto replicate_Suc)
qed

lemma handleDNSQuery_tier_list:
  assumes q: "Question r = q # qs"
  shows "prefix (remdups_adj (consulted (snd (handleDNSQuery L E t r dl cip rt qtype))))
           ([Exact, Wildcard]
            @ (if UseDiskCache (options t) then [Cache] else [])
            @ (if UpstreamServers (options t) = [] then [] else [Upstream])
            @ [Fallback])
     \<and> hd (consulted (snd (handleDNSQuery L E t r dl cip rt qtype))) = Exact
     \<and> consulted (snd (handleDNSQuery L E t r dl cip rt qtype)) \<noteq> []"
  using forwardToUpstream_tier_list[of L E t r dl cip rt]
  by (auto simp add: handleDNSQuery_def q Let_def after_def remdups_adj_Cons
      split: option.splits list.splits if_splits)


text \<open>
  C1, amended: for a query with a question of one of the supported types that no rule
  matches, the tiers are read in the fixed order (rules, record store entry for the name,
  record store entry for \<open>*\<close>, cache, upstream, fallback), each at most once in a row and
  none skipped on the way to the tier that answers, the cache only when it is on, and the
  one message sent is the answer of the first tier that has an entry: the record
  for the name, else the record for \<open>*\<close>, else a cache entry that decodes, else the first
  successful upstream message, else the fallback message. Whether that answer holds any
  record for the type asked plays no part.
\<close>

theorem first_tier_with_an_entry_answers:
  assumes q: "Question r = q # qs"
    and kind: "supported (Qtype q)"
    and unmatched: "find (ruleMatches L q) (rulesOf t) = None"
  shows "prefix (remdups_adj (consulted (snd (ServeDNS L E t cip r)))) (tierOrder t)
     \<and> sorted (map rank (consulted (snd (ServeDNS L E t cip r))))
     \<and> (Cache \<in> set (consulted (snd (ServeDNS L E t cip r))) \<longrightarrow> UseDiskCache (options t))
     \<and> written (snd (ServeDNS L E t cip r))
         = [case first_some (tierAnswers L E t r q) of
              Some m \<Rightarrow> m
            | None \<Rightarrow> fallbackAnswer L t r q]"
proof -
  define tr where "tr = snd (handleDNSQuery L E t r (TrimSuffix (Name q) ''.'') cip
      (TypeToString L (Qtype q)) (Qtype q))"
  have run: "snd (ServeDNS L E t cip r) =
      Log (REQUEST (TypeToString L (Qtype q)) (TrimSuffix (Name q) ''.'') (Opcode r) cip)
      # map RuleCheck (rulesOf t) @ tr"
    by (simp add: ServeDNS_unmatched[OF q kind unmatched] after_def tr_def)
  have shape: "prefix (remdups_adj (consulted tr))
           ([Exact, Wildcard]
            @ (if UseDiskCache (options t) then [Cache] else [])
            @ (if UpstreamServers (options t) = [] then [] else [Upstream])
            @ [Fallback])"
    and first: "hd (consulted tr) \<noteq> Config" "consulted tr \<noteq> []"
    using handleDNSQuery_tier_list[OF q, of L E t "TrimSuffix (Name q) ''.''" cip
        "TypeToString L (Qtype q)" "Qtype q"]
    by (simp_all add: tr_def)
  have "remdups_adj (consulted (snd (ServeDNS L E t cip r)))
      = (if rulesOf t = [] then [] else [Config]) @ remdups_adj (consulted tr)"
    using remdups_adj_Config[OF first(2,1), of "length (rulesOf t)"] by (simp add: run)
  then have order: "prefix (remdups_adj (consulted (snd (ServeDNS L E t cip r)))) (tierOrder t)"
    using shape by (simp add: tierOrder_def)
  have "Cache \<in> set (consulted (snd (ServeDNS L E t cip r))) \<longrightarrow> UseDiskCache (options t)"
    using handleDNSQuery_cache_read[OF q, of L E t "TrimSuffix (Name q) ''.''" cip
        "TypeToString L (Qtype q)" "Qtype q"]
    by (auto simp add: run tr_def)
  moreover have "written (snd (ServeDNS L E t cip r))
         = [case first_some (tierAnswers L E t r q) of
              Some m \<Rightarrow> m
            | None \<Rightarrow> fallbackAnswer L t r q]"
    by (simp add: run tr_def handleDNSQuery_written[OF q])
  ultimately show ?thesis
    using order ServeDNS_in_order by blast
qed

theorem first_tier_with_an_entry_answers_witness:
  "Question sampleQuery = [sampleQuestion]
   \<and> supported (Qtype sampleQuestion)
   \<and> find (ruleMatches sampleLib sampleQuestion) (rulesOf sampleServer) = None
   \<and> consulted (snd (ServeDNS sampleLib answering sampleServer ''192.0.2.7:5353'' sampleQuery))
       = [Exact, Wildcard, Cache, Upstream]
   \<and> tierOrder sampleServer = [Exact, Wildcard, Cache, Upstream, Fallback]
   \<and> prefix (remdups_adj
        (consulted (snd (ServeDNS sampleLib answering sampleServer ''192.0.2.7:5353'' sampleQuery))))
        (tierOrder sampleServer)
   \<and> sorted (map rank
        (consulted (snd (ServeDNS sampleLib answering sampleServer ''192.0.2.7:5353'' sampleQuery))))
   \<and> written (snd (ServeDNS sampleLib answering sampleServer ''192.0.2.7:5353'' sampleQuery))
       = [case first_some (tierAnswers sampleLib answering sampleServer sampleQuery sampleQuestion) of
            Some m \<Rightarrow> m
          | None \<Rightarrow> fallbackAnswer sampleLib sampleServer sampleQuery sampleQuestion]
   \<and> written (snd (ServeDNS sampleLib answering sampleServer ''192.0.2.7:5353'' sampleQuery))
       = [sampleUpstreamMsg]"
proof -
  have q: "Question sampleQuery = sampleQuestion # []"
    by (simp add: sample_facts)
  have kind: "supported (Qtype sampleQuestion)"
    by (simp add: sample_facts)
  have unmatched: "find (ruleMatches sampleLib sampleQuestion) (rulesOf sampleServer) = None"
    by (simp add: rulesOf_def sampleServer_def)
  note run = first_tier_with_an_entry_answers[OF q kind unmatched, of answering
      "''192.0.2.7:5353''"]
  have order: "prefix (remdups_adj
        (consulted (snd (ServeDNS sampleLib answering sampleServer ''192.0.2.7:5353'' sampleQuery))))
        (tierOrder sampleServer)"
    using run by blast
  have inorder: "sorted (map rank
        (consulted (snd (ServeDNS sampleLib answering sampleServer ''192.0.2.7:5353'' sampleQuery))))"
    using run by blast
  have first: "written (snd (ServeDNS sampleLib answering sampleServer ''192.0.2.7:5353''
      sampleQuery))
       = [case first_some (tierAnswers sampleLib answering sampleServer sampleQuery sampleQuestion) of
            Some m \<Rightarrow> m
          | None \<Rightarrow> fallbackAnswer sampleLib sampleServer sampleQuery sampleQuestion]"
    using run by blast
  have seen: "consulted (snd (ServeDNS sampleLib answering sampleServer ''192.0.2.7:5353''
      sampleQuery)) = [Exact, Wildcard, Cache, Upstream]"
    "written (snd (ServeDNS sampleLib answering sampleServer ''192.0.2.7:5353'' sampleQuery))
       = [sampleUpstreamMsg]"
    by (simp_all add: sample_run)
  have tiers: "tierOrder sampleServer = [Exact, Wildcard, Cache, Upstream, Fallback]"
    by (simp add: tierOrder_def rulesOf_def sampleServer_def DefaultOptions_def)
  show ?thesis
    using q kind unmatched order inorder first seen tiers by blast
qed

text \<open>
  C1, as the specification states it, does not hold: the tier that wins need not be the
  first whose answer has a record. Here the record store has an entry for \<open>x.com\<close> with
  a \<open>TXT\<close> string only, and an entry for \<open>*\<close> with an address. An \<open>A\<close> query for
  \<open>x.com.\<close> is answered from the entry for the name, with no answer record, although the
  first tier whose answer has a record is the wildcard, with \<open>10.0.0.5\<close>.
\<close>

theorem first_nonempty_tier_counterexample:
  "map Answer (written (snd (ServeDNS sampleLib answering storeServer ''192.0.2.7:5353''
                              sampleQuery)))
     = [[]]
   \<and> map_option Answer
       (first_some (map nonEmpty
          (tierAnswers sampleLib answering storeServer sampleQuery sampleQuestion)))
     = Some [dns_A \<lparr>Hdr_Name = ''x.com.'', Rrtype = TypeA, Class = ClassINET, Ttl = 60\<rparr>
               [10, 0, 0, 5]]"
proof -
  have run: "written (snd (ServeDNS sampleLib answering storeServer ''192.0.2.7:5353'' sampleQuery))
      = [createResponseFromDnsRecord sampleLib storeServer sampleQuery ''x.com.''
           (emptyDnsRecord\<lparr>TXT := [''v=spf1 -all'']\<rparr>) TypeA]"
    by (simp add: ServeDNS_def sample_facts Let_def storeServer_def sampleServer_def
        DefaultOptions_def handleDNSQuery_def after_def)
  have exact: "nonEmpty (memoryAnswer sampleLib storeServer sampleQuery sampleQuestion) = None"
    by (simp add: nonEmpty_def memoryAnswer_def sample_facts storeServer_def sampleServer_def
        DefaultOptions_def createResponseFromDnsRecord_def emptyDnsRecord_def Let_def)
  have wild: "map_option Answer
        (nonEmpty (wildcardAnswer sampleLib storeServer sampleQuery sampleQuestion))
      = Some [dns_A \<lparr>Hdr_Name = ''x.com.'', Rrtype = TypeA, Class = ClassINET, Ttl = 60\<rparr>
               [10, 0, 0, 5]]"
    by (simp add: nonEmpty_def wildcardAnswer_def sample_facts storeServer_def sampleServer_def
        DefaultOptions_def createResponseFromDnsRecord_def emptyDnsRecord_def Let_def
        sampleLib_def)
  have "first_some (map nonEmpty
          (tierAnswers sampleLib answering storeServer sampleQuery sampleQuestion))
      = nonEmpty (wildcardAnswer sampleLib storeServer sampleQuery sampleQuestion)"
    using wild by (auto simp add: tierAnswers_def exact)
  then show ?thesis
    using wild
    by (simp add: run createResponseFromDnsRecord_def emptyDnsRecord_def Let_def)
qed

subsection \<open>Decoding inverts encoding\<close>

declare bigEndian.simps [simp del]

declare decStruct.simps [simp del]

lemma charOf_byteOf [simp]: "charOf (byteOf c) = c"
  by (simp add: charOf_def byteOf_def unat_of_nat)

lemma fromBigEndian_snoc: "fromBigEndian (bs @ [b]) = fromBigEndian bs * 256 + unat b"
  by (simp add: fromBigEndian_def)

lemma fromBigEndian_bigEndian: "fromBigEndian (bigEndian x) = x"
proof (induction x rule: bigEndian.induct)
  case (1 x)
  show ?case
  proof (cases "x = 0")
    case True
    then show ?thesis
      by (simp add: bigEndian.simps fromBigEndian_def)
  next
    case False
    have "bigEndian x = bigEndian (x div 256) @ [of_nat (x mod 256)]"
      using False by (subst bigEndian.simps) simp
    then show ?thesis
      using 1 False by (simp add: fromBigEndian_snoc unat_of_nat)
  qed
qed

lemma length_bigEndian_le: "x < 256 ^ k \<Longrightarrow> length (bigEndian x) \<le> k"
proof (induction k arbitrary: x)
  case 0
  then show ?case
    by (simp add: bigEndian.simps)
next
  case (Suc k)
  show ?case
  proof (cases "x = 0")
    case True
    then show ?thesis
      by (simp add: bigEndian.simps)
  next
    case False
    have "x div 256 < 256 ^ k"
      using Suc.prems by (simp add: less_mult_imp_div_less mult.commute)
    then have "length (bigEndian (x div 256)) \<le> k"
      by (rule Suc.IH)
    moreover have "bigEndian x = bigEndian (x div 256) @ [of_nat (x mod 256)]"
      using False by (subst bigEndian.simps) simp
    ultimately show ?thesis
      by simp
  qed
qed

lemma length_bigEndian_pos: "0 < x \<Longrightarrow> 0 < length (bigEndian x)"
  by (subst bigEndian.simps) simp

lemma decodeUint_encodeUint:
  assumes "x < 2 ^ 64"
  shows "decodeUint (encodeUint x @ rest) = Some (x, rest)"
proof (cases "x \<le> 127")
  case True
  then show ?thesis
    by (simp add: encodeUint_def decodeUint_def unat_of_nat)
next
  case False
  define n where "n = length (bigEndian x)"
  have "x < 256 ^ 8"
    using assms by simp
  then have le: "n \<le> 8"
    unfolding n_def by (rule length_bigEndian_le)
  have pos: "0 < n"
    unfolding n_def using False by (intro length_bigEndian_pos) simp
  have "n = 1 \<or> n = 2 \<or> n = 3 \<or> n = 4 \<or> n = 5 \<or> n = 6 \<or> n = 7 \<or> n = 8"
    using le pos by arith
  then have count: "unat (of_nat (256 - n) :: 8 word) = 256 - n"
    by (elim disjE) simp_all
  show ?thesis
    using False le pos count
    by (simp add: encodeUint_def decodeUint_def n_def[symmetric] Let_def)
      (simp add: n_def fromBigEndian_bigEndian)
qed


lemma decodeInt_encodeInt:
  "- (2 ^ 62) \<le> i \<Longrightarrow> i < 2 ^ 62 \<Longrightarrow> decodeInt (encodeInt i @ rest) = Some (i, rest)"
  by (simp add: decodeInt_def encodeInt_def decodeUint_encodeUint)

lemma decUint16_encUint16: "decUint16 (encUint16 v @ rest) = Some (v, rest)"
proof -
  have small: "unat v < 2 ^ 16"
    using unsigned_less[of v, where ?'a = nat] by simp
  then have "unat v < 2 ^ 64"
    by simp
  then show ?thesis
    using small by (simp add: decUint16_def encUint16_def decodeUint_encodeUint)
qed

lemma decString_encString:
  "length s < 2 ^ 64 \<Longrightarrow> decString (encString s @ rest) = Some (s, rest)"
  by (simp add: decString_def encString_def decodeUint_encodeUint comp_def)

lemma decodeElems_concat:
  "(\<And>x rest. x \<in> set xs \<Longrightarrow> p (enc x @ rest) = Some (x, rest)) \<Longrightarrow>
   decodeElems p (length xs) (concat (map enc xs) @ rest) = Some (xs, rest)"
  by (induction xs) simp_all

lemma decSlice_encSlice:
  "length xs < 2 ^ 64 \<Longrightarrow>
   (\<And>x rest. x \<in> set xs \<Longrightarrow> p (enc x @ rest) = Some (x, rest)) \<Longrightarrow>
   decSlice p (encSlice enc xs @ rest) = Some (xs, rest)"
  by (simp add: decSlice_def encSlice_def decodeUint_encodeUint decodeElems_concat)


lemma applyField_simps [simp]:
  "applyField (None, f, u) acc = acc"
  "applyField (Some v, f, u) acc = u acc"
  by (simp_all add: applyField_def)

lemma decStruct_encStruct:
  "list_all fieldOk xs \<Longrightarrow> length skipped + length xs < 2 ^ 64 \<Longrightarrow>
   decStruct (skipped @ map (\<lambda>x. fst (snd x)) xs) acc
     (encStruct (Suc (length skipped)) (map fst xs) @ rest)
     = Some (fold applyField xs acc, rest)"
proof (induction xs arbitrary: skipped acc)
  case Nil
  have "decodeUint (encodeUint 0 @ rest) = Some (0, rest)"
    by (rule decodeUint_encodeUint) simp
  then show ?case
    by (subst decStruct.simps) simp
next
  case (Cons x xs)
  obtain e f u where x: "x = (e, f, u)"
    by (cases x)
  show ?case
  proof (cases e)
    case None
    have "decStruct ((skipped @ [f]) @ map (\<lambda>x. fst (snd x)) xs) acc
        (encStruct (Suc (length (skipped @ [f]))) (map fst xs) @ rest)
        = Some (fold applyField xs acc, rest)"
      using Cons.prems by (intro Cons.IH) simp_all
    then show ?thesis
      by (simp add: x None)
  next
    case (Some v)
    have delta: "decodeUint (encodeUint (Suc (length skipped))
        @ v @ encStruct (Suc 0) (map fst xs) @ rest)
        = Some (Suc (length skipped), v @ encStruct (Suc 0) (map fst xs) @ rest)"
      using Cons.prems(2) by (intro decodeUint_encodeUint) simp
    have field: "f (v @ encStruct (Suc 0) (map fst xs) @ rest)
        = Some (u, encStruct (Suc 0) (map fst xs) @ rest)"
      using Cons.prems(1) by (simp add: x Some fieldOk_def)
    have "decStruct ([] @ map (\<lambda>x. fst (snd x)) xs) (u acc)
        (encStruct (Suc (length ([] :: (bytes \<Rightarrow> (('a \<Rightarrow> 'a) \<times> bytes) option) list)))
           (map fst xs) @ rest)
        = Some (fold applyField xs (u acc), rest)"
      using Cons.prems by (intro Cons.IH) simp_all
    then have tail: "decStruct (map (\<lambda>x. fst (snd x)) xs) (u acc) (encStruct (Suc 0) (map fst xs) @ rest)
        = Some (fold applyField xs (u acc), rest)"
      by simp
    show ?thesis
      by (subst decStruct.simps) (simp add: x Some delta field tail)
  qed
qed


lemma fieldOk_omitted [simp]: "fieldOk (None, f, u)"
  by (simp add: fieldOk_def)

lemma fieldOk_sent:
  "(\<And>rest. p (v @ rest) = Some (x, rest)) \<Longrightarrow> fieldOk (Some v, fieldDecoder p put, put x)"
  by (simp add: fieldOk_def fieldDecoder_def)

lemma decMXRecord_encMXRecord:
  assumes "length (MX_Target m) < 2 ^ 64"
  shows "decMXRecord (encMXRecord m @ rest) = Some (m, rest)"
proof -
  define xs :: "(bytes option \<times> (bytes \<Rightarrow> ((MXRecord \<Rightarrow> MXRecord) \<times> bytes) option)
      \<times> (MXRecord \<Rightarrow> MXRecord)) list"
    where "xs =
      [(if MX_Priority m = 0 then None else Some (encUint16 (MX_Priority m)),
        fieldDecoder decUint16 (\<lambda>v m. m\<lparr>MX_Priority := v\<rparr>),
        \<lambda>a. a\<lparr>MX_Priority := MX_Priority m\<rparr>),
       (if MX_Target m = [] then None else Some (encString (MX_Target m)),
        fieldDecoder decString (\<lambda>v m. m\<lparr>MX_Target := v\<rparr>),
        \<lambda>a. a\<lparr>MX_Target := MX_Target m\<rparr>)]"
  have ok: "list_all fieldOk xs"
    using assms
    by (auto simp add: xs_def intro!: fieldOk_sent decUint16_encUint16 decString_encString)
  have "decStruct ([] @ map (\<lambda>x. fst (snd x)) xs) \<lparr>MX_Priority = 0, MX_Target = []\<rparr>
      (encStruct (Suc (length ([] :: (bytes \<Rightarrow> ((MXRecord \<Rightarrow> MXRecord) \<times> bytes) option) list)))
         (map fst xs) @ rest)
      = Some (fold applyField xs \<lparr>MX_Priority = 0, MX_Target = []\<rparr>, rest)"
    using ok by (intro decStruct_encStruct) (simp_all add: xs_def)
  moreover have "fold applyField xs \<lparr>MX_Priority = 0, MX_Target = []\<rparr> = m"
    by (cases m) (simp add: xs_def)
  ultimately show ?thesis
    by (simp add: decMXRecord_def encMXRecord_def xs_def)
qed


lemma struct_round_trip:
  assumes "list_all fieldOk xs" and "length xs < 2 ^ 64" and "fold applyField xs zero = r"
  shows "decStruct (map (\<lambda>x. fst (snd x)) xs) zero (encStruct (Suc 0) (map fst xs) @ rest)
     = Some (r, rest)"
  using decStruct_encStruct[of xs "[]" zero rest] assms by simp

lemma decSRVRecord_encSRVRecord:
  assumes "goString (SRV_Target v)"
  shows "decSRVRecord (encSRVRecord v @ rest) = Some (v, rest)"
proof -
  define xs :: "(bytes option \<times> (bytes \<Rightarrow> ((SRVRecord \<Rightarrow> SRVRecord) \<times> bytes) option)
      \<times> (SRVRecord \<Rightarrow> SRVRecord)) list"
    where "xs =
      [(if SRV_Priority v = 0 then None else Some (encUint16 (SRV_Priority v)),
        fieldDecoder decUint16 (\<lambda>v a. a\<lparr>SRV_Priority := v\<rparr>),
        \<lambda>a. a\<lparr>SRV_Priority := SRV_Priority v\<rparr>),
       (if SRV_Weight v = 0 then None else Some (encUint16 (SRV_Weight v)),
        fieldDecoder decUint16 (\<lambda>v a. a\<lparr>SRV_Weight := v\<rparr>),
        \<lambda>a. a\<lparr>SRV_Weight := SRV_Weight v\<rparr>),
       (if SRV_Port v = 0 then None else Some (encUint16 (SRV_Port v)),
        fieldDecoder decUint16 (\<lambda>v a. a\<lparr>SRV_Port := v\<rparr>),
        \<lambda>a. a\<lparr>SRV_Port := SRV_Port v\<rparr>),
       (if SRV_Target v = [] then None else Some (encString (SRV_Target v)),
        fieldDecoder decString (\<lambda>v a. a\<lparr>SRV_Target := v\<rparr>),
        \<lambda>a. a\<lparr>SRV_Target := SRV_Target v\<rparr>)]"
  have "length (SRV_Target v) < 2 ^ 64"
    using assms by (simp add: goString_def)
  then have ok: "list_all fieldOk xs"
    by (auto simp add: xs_def intro!: fieldOk_sent decUint16_encUint16 decString_encString)
  have "fold applyField xs \<lparr>SRV_Priority = 0, SRV_Weight = 0, SRV_Port = 0, SRV_Target = []\<rparr> = v"
    by (cases v) (simp add: xs_def)
  with ok have "decStruct (map (\<lambda>x. fst (snd x)) xs)
      \<lparr>SRV_Priority = 0, SRV_Weight = 0, SRV_Port = 0, SRV_Target = []\<rparr>
      (encStruct (Suc 0) (map fst xs) @ rest) = Some (v, rest)"
    by (intro struct_round_trip) (simp_all add: xs_def)
  then show ?thesis
    by (simp add: decSRVRecord_def encSRVRecord_def xs_def)
qed

lemma decStrings_encStrings:
  assumes "goStrings ss"
  shows "decSlice decString (encSlice encString ss @ rest) = Some (ss, rest)"
proof (rule decSlice_encSlice)
  show "length ss < 2 ^ 64"
    using assms by (simp add: goStrings_def)
next
  fix s rest
  assume "s \<in> set ss"
  then have "length s < 2 ^ 64"
    using assms by (auto simp add: goStrings_def goString_def list_all_iff)
  then show "decString (encString s @ rest) = Some (s, rest)"
    by (rule decString_encString)
qed

lemma decDnsRecord_encDnsRecord:
  assumes "goDnsRecord d"
  shows "decDnsRecord (encDnsRecord d @ rest) = Some (d, rest)"
proof -
  define xs :: "(bytes option \<times> (bytes \<Rightarrow> ((DnsRecord \<Rightarrow> DnsRecord) \<times> bytes) option)
      \<times> (DnsRecord \<Rightarrow> DnsRecord)) list"
    where "xs =
      [(if A d = [] then None else Some (encSlice encString (A d)),
        fieldDecoder (decSlice decString) (\<lambda>v d. d\<lparr>A := v\<rparr>), \<lambda>a. a\<lparr>A := A d\<rparr>),
       (if AAAA d = [] then None else Some (encSlice encString (AAAA d)),
        fieldDecoder (decSlice decString) (\<lambda>v d. d\<lparr>AAAA := v\<rparr>), \<lambda>a. a\<lparr>AAAA := AAAA d\<rparr>),
       (if MX d = [] then None else Some (encSlice encMXRecord (MX d)),
        fieldDecoder (decSlice decMXRecord) (\<lambda>v d. d\<lparr>MX := v\<rparr>), \<lambda>a. a\<lparr>MX := MX d\<rparr>),
       (if TXT d = [] then None else Some (encSlice encString (TXT d)),
        fieldDecoder (decSlice decString) (\<lambda>v d. d\<lparr>TXT := v\<rparr>), \<lambda>a. a\<lparr>TXT := TXT d\<rparr>),
       (if CNAME d = [] then None else Some (encString (CNAME d)),
        fieldDecoder decString (\<lambda>v d. d\<lparr>CNAME := v\<rparr>), \<lambda>a. a\<lparr>CNAME := CNAME d\<rparr>),
       (if NS d = [] then None else Some (encSlice encString (NS d)),
        fieldDecoder (decSlice decString) (\<lambda>v d. d\<lparr>NS := v\<rparr>), \<lambda>a. a\<lparr>NS := NS d\<rparr>),
       (if PTR d = [] then None else Some (encSlice encString (PTR d)),
        fieldDecoder (decSlice decString) (\<lambda>v d. d\<lparr>PTR := v\<rparr>), \<lambda>a. a\<lparr>PTR := PTR d\<rparr>),
       (if SRV d = [] then None else Some (encSlice encSRVRecord (SRV d)),
        fieldDecoder (decSlice decSRVRecord) (\<lambda>v d. d\<lparr>SRV := v\<rparr>), \<lambda>a. a\<lparr>SRV := SRV d\<rparr>)]"
  have mx: "decSlice decMXRecord (encSlice encMXRecord (MX d) @ rest) = Some (MX d, rest)" for rest
  proof (rule decSlice_encSlice)
    show "length (MX d) < 2 ^ 64"
      using assms by (simp add: goDnsRecord_def)
  next
    fix m rest
    assume "m \<in> set (MX d)"
    then have "length (MX_Target m) < 2 ^ 64"
      using assms by (auto simp add: goDnsRecord_def goString_def list_all_iff)
    then show "decMXRecord (encMXRecord m @ rest) = Some (m, rest)"
      by (rule decMXRecord_encMXRecord)
  qed
  have srv: "decSlice decSRVRecord (encSlice encSRVRecord (SRV d) @ rest) = Some (SRV d, rest)"
    for rest
  proof (rule decSlice_encSlice)
    show "length (SRV d) < 2 ^ 64"
      using assms by (simp add: goDnsRecord_def)
  next
    fix v rest
    assume "v \<in> set (SRV d)"
    then have "goString (SRV_Target v)"
      using assms by (auto simp add: goDnsRecord_def list_all_iff)
    then show "decSRVRecord (encSRVRecord v @ rest) = Some (v, rest)"
      by (rule decSRVRecord_encSRVRecord)
  qed
  have cname: "decString (encString (CNAME d) @ rest) = Some (CNAME d, rest)" for rest
    using assms by (intro decString_encString) (simp add: goDnsRecord_def goString_def)
  have strings: "goStrings (A d)" "goStrings (AAAA d)" "goStrings (TXT d)" "goStrings (NS d)"
    "goStrings (PTR d)"
    using assms by (simp_all add: goDnsRecord_def)
  have ok: "list_all fieldOk xs"
    using strings mx srv cname
    by (auto simp add: xs_def intro!: fieldOk_sent decStrings_encStrings)
  have "fold applyField xs emptyDnsRecord = d"
    by (cases d) (simp add: xs_def emptyDnsRecord_def)
  with ok have "decStruct (map (\<lambda>x. fst (snd x)) xs) emptyDnsRecord
      (encStruct (Suc 0) (map fst xs) @ rest) = Some (d, rest)"
    by (intro struct_round_trip) (simp_all add: xs_def)
  then show ?thesis
    by (simp add: decDnsRecord_def encDnsRecord_def xs_def)
qed


text \<open>Every record of a size that Go allows is read back as it was written.\<close>

lemma gob_round_trip:
  assumes "goMessage W d"
  shows "gobDecodeDnsRecord W (gobEncodeDnsRecord W d) = Some d"
proof -
  define body where "body = encodeInt (typeId W) @ encDnsRecord d"
  have len: "length body < 2 ^ 64"
    using assms by (simp add: goMessage_def body_def)
  have count: "decodeUint (encodeUint (length body) @ body) = Some (length body, body)"
    using len by (rule decodeUint_encodeUint)
  have "- (2 ^ 62) \<le> typeId W" "typeId W < 2 ^ 62"
    using assms by (simp_all add: goMessage_def)
  then have "decodeInt (encodeInt (typeId W) @ encDnsRecord d)
      = Some (typeId W, encDnsRecord d)"
    by (rule decodeInt_encodeInt)
  then have id: "decodeInt body = Some (typeId W, encDnsRecord d)"
    by (simp add: body_def)
  have "decDnsRecord (encDnsRecord d @ []) = Some (d, [])"
    using assms by (intro decDnsRecord_encDnsRecord) (simp add: goMessage_def)
  then have val: "decDnsRecord (encDnsRecord d) = Some (d, [])"
    by simp
  have "gobEncodeDnsRecord W d = typeDefs W @ encodeUint (length body) @ body"
    by (simp add: gobEncodeDnsRecord_def body_def Let_def)
  then show ?thesis
    by (simp add: gobDecodeDnsRecord_def count id val)
qed


text \<open>
  The record with the one address \<open>93.184.216.34\<close> on the wire: field 0 (distance 1), a
  slice of one string of 13 bytes, the end mark; and the message around it.
\<close>

lemma sample_encoding:
  "encDnsRecord sampleRecord
     = [1, 1, 13, 57, 51, 46, 49, 56, 52, 46, 50, 49, 54, 46, 51, 52, 0]"
  "gobEncodeDnsRecord sampleTypes sampleRecord
     = [19, 255, 130, 1, 1, 13, 57, 51, 46, 49, 56, 52, 46, 50, 49, 54, 46, 51, 52, 0]"
  by (simp_all add: gobEncodeDnsRecord_def sampleTypes_def encodeInt_def encDnsRecord_def
      sampleRecord_def emptyDnsRecord_def encSlice_def encString_def encodeUint_def byteOf_def
      bigEndian.simps Let_def)

subsection \<open>Writing the cache and reading it back\<close>

text \<open>The state after a run whose one successful exchange brought \<open>msg\<close>.\<close>

lemma ServeDNS_after_success:
  assumes q: "Question r = q # qs"
    and hit: "successes (snd (ServeDNS L E t cip r)) = [msg]"
  shows "fst (ServeDNS L E t cip r)
          = fst (upstreamSuccess L t r (TrimSuffix (Name q) ''.'') (TypeToString L (Qtype q))
                   srv msg)
     \<and> cacheSets (snd (ServeDNS L E t cip r))
          = cacheSets (snd (upstreamSuccess L t r (TrimSuffix (Name q) ''.'')
                              (TypeToString L (Qtype q)) srv msg))"
  using q
proof (cases rule: ServeDNS_cases[where L = L and E = E and t = t and cip = cip])
  case (answered pre m src)
  then show ?thesis
    using hit by (simp add: local_reads_def)
next
  case (forwarded pre)
  define dl where "dl = TrimSuffix (Name q) ''.''"
  define rt where "rt = TypeToString L (Qtype q)"
  have run: "ServeDNS L E t cip r = after pre (forwardToUpstream L E t r dl cip rt)"
    using forwarded(1) by (simp add: dl_def rt_def)
  have quiet: "successes pre = []" "cacheSets pre = []"
    using forwarded(2) by (simp_all add: local_reads_def)
  show ?thesis
  proof (cases rule: forwardToUpstream_cases[of t L E r dl cip rt])
    case no_servers
    then show ?thesis
      using hit by (simp add: run quiet after_def)
  next
    case all_fail
    have "successes (concat (map (failedAttempt E t dl cip rt (attempts t))
            [0..attempts t - 1])) = []"
      by (rule failedAttempts_successes) (simp add: all_fail(2))
    then show ?thesis
      using hit by (simp add: run quiet after_def all_fail(3))
  next
    case (success k msg')
    have none: "successes (concat (map (failedAttempt E t dl cip rt (attempts t)) [0..k - 1])) = []"
      by (rule failedAttempts_successes) (simp add: success(4))
    have "successes (snd (ServeDNS L E t cip r)) = [msg']"
      using success(5) by (simp add: run quiet after_def success(6) none attemptResult_def)
    then have "msg' = msg"
      using hit by simp
    then have "fst (ServeDNS L E t cip r) = fst (upstreamSuccess L t r dl rt srv msg)
        \<and> cacheSets (snd (ServeDNS L E t cip r))
            = cacheSets (snd (upstreamSuccess L t r dl rt srv msg))"
      by (simp add: run quiet after_def success(6) none upstreamSuccess_state[OF q]
          upstreamSuccess_cacheSets[OF q])
    then show ?thesis
      by (simp add: dl_def rt_def)
  qed
qed

text \<open>
  What is written after a successful exchange is what a later run reads, provided the
  decoder returns the record from the bytes the encoder made of it.
\<close>

lemma cache_write_then_read:
  assumes q: "Question r = q # qs"
    and on: "UseDiskCache (options t)"
    and hit: "successes (snd (ServeDNS L E t cip r)) = [msg]"
    and answers: "Answer msg \<noteq> []"
    and encoded: "gobEncode L (extractDnsRecord L msg) = Some b"
    and decoded: "gobDecode L b = Some (extractDnsRecord L msg)"
  shows "cacheSets (snd (ServeDNS L E t cip r)) = [(Name q @ TypeToString L (Qtype q), b)]
     \<and> hm (fst (ServeDNS L E t cip r)) (Name q @ TypeToString L (Qtype q)) = Some b
     \<and> (supported (Qtype q) \<and> find (ruleMatches L q) (rulesOf t) = None
        \<and> DnsRecords (options t) (TrimSuffix (Name q) ''.'') = None
        \<and> DnsRecords (options t) ''*'' = None \<longrightarrow>
        snd (ServeDNS L E' (fst (ServeDNS L E t cip r)) cip' r) =
          Log (REQUEST (TypeToString L (Qtype q)) (TrimSuffix (Name q) ''.'') (Opcode r) cip')
          # map RuleCheck (rulesOf t)
          @ [MemoryLookup (TrimSuffix (Name q) ''.''), WildcardLookup,
             CacheGet (Name q @ TypeToString L (Qtype q)),
             WriteMsg (createResponseFromDnsRecord L (fst (ServeDNS L E t cip r)) r (Name q)
                         (extractDnsRecord L msg) (Qtype q)),
             Log (RESPONSE (TypeToString L (Qtype q)) (TrimSuffix (Name q) ''.'') from_cache)])"
proof -
  define t' where "t' = t\<lparr>hm := (hm t)(Name q @ TypeToString L (Qtype q) \<mapsto> b)\<rparr>"
  have state: "fst (ServeDNS L E t cip r) = t'"
    and sets: "cacheSets (snd (ServeDNS L E t cip r)) = [(Name q @ TypeToString L (Qtype q), b)]"
    using ServeDNS_after_success[OF q hit, of "[]"] on answers encoded
    by (simp_all add: upstreamSuccess_state[OF q] upstreamSuccess_cacheSets[OF q] t'_def)
  have same: "rulesOf t' = rulesOf t" "options t' = options t"
    by (simp_all add: t'_def rulesOf_def)
  have again: "snd (ServeDNS L E' t' cip' r) =
          Log (REQUEST (TypeToString L (Qtype q)) (TrimSuffix (Name q) ''.'') (Opcode r) cip')
          # map RuleCheck (rulesOf t)
          @ [MemoryLookup (TrimSuffix (Name q) ''.''), WildcardLookup,
             CacheGet (Name q @ TypeToString L (Qtype q)),
             WriteMsg (createResponseFromDnsRecord L t' r (Name q)
                         (extractDnsRecord L msg) (Qtype q)),
             Log (RESPONSE (TypeToString L (Qtype q)) (TrimSuffix (Name q) ''.'') from_cache)]"
    if reach: "supported (Qtype q)" "find (ruleMatches L q) (rulesOf t) = None"
      "DnsRecords (options t) (TrimSuffix (Name q) ''.'') = None"
      "DnsRecords (options t) ''*'' = None"
  proof -
    have "find (ruleMatches L q) (rulesOf t') = None"
      using reach(2) same by simp
    from ServeDNS_unmatched[OF q reach(1) this, of E' cip']
    show ?thesis
      using reach(3,4) on decoded
      by (simp add: after_def same handleDNSQuery_def q Let_def)
        (simp add: t'_def)
  qed
  show ?thesis
    using sets again by (simp add: state t'_def)
qed

lemma gob_sample_facts:
  "TypeToString gobLib TypeA = ''A''"
  "extractDnsRecord gobLib sampleUpstreamMsg = sampleRecord"
  "gobEncode gobLib = (\<lambda>d. Some (gobEncodeDnsRecord sampleTypes d))"
  "gobDecode gobLib = gobDecodeDnsRecord sampleTypes"
  by (simp_all add: gobLib_def sampleLib_def sampleUpstreamMsg_def extractDnsRecord_def
      sampleRecord_def emptyDnsRecord_def)

lemma gob_sample_run:
  "successes (snd (ServeDNS gobLib answering sampleServer ''192.0.2.7:5353'' sampleQuery))
     = [sampleUpstreamMsg]"
  by (simp add: ServeDNS_def sample_facts gob_sample_facts Let_def sampleServer_def
      DefaultOptions_def handleDNSQuery_def after_def forwardToUpstream_def upstreamLoop.simps
      answering_def firstServer_def upstreamSuccess_def)

text \<open>
  C8: for every \<open>DnsRecord\<close> of a size that Go allows, decoding the bytes that the
  serializer made of it gives the record back. In the pipeline, with that serializer as
  the library's: a run with the cache on that ends with a successful exchange whose
  message \<open>msg\<close> has an answer writes the cache once, under the key that is the question's
  name followed by the type's name with nothing between, the bytes being the encoding of
  the record extracted from \<open>msg\<close>; these bytes decode to that record; and a later run for
  the same request that reaches the cache tier reads that same key and answers from that
  record.
\<close>

theorem gob_cache_round_trip:
  assumes codec: "gobEncode L = (\<lambda>d. Some (gobEncodeDnsRecord W d))"
      "gobDecode L = gobDecodeDnsRecord W"
    and q: "Question r = q # qs"
    and on: "UseDiskCache (options t)"
    and hit: "successes (snd (ServeDNS L E t cip r)) = [msg]"
    and answers: "Answer msg \<noteq> []"
    and fits: "goMessage W (extractDnsRecord L msg)"
  shows "(goMessage W d \<longrightarrow> gobDecodeDnsRecord W (gobEncodeDnsRecord W d) = Some d)
     \<and> cacheSets (snd (ServeDNS L E t cip r))
         = [(Name q @ TypeToString L (Qtype q), gobEncodeDnsRecord W (extractDnsRecord L msg))]
     \<and> hm (fst (ServeDNS L E t cip r)) (Name q @ TypeToString L (Qtype q))
         = Some (gobEncodeDnsRecord W (extractDnsRecord L msg))
     \<and> gobDecode L (gobEncodeDnsRecord W (extractDnsRecord L msg))
         = Some (extractDnsRecord L msg)
     \<and> (supported (Qtype q) \<and> find (ruleMatches L q) (rulesOf t) = None
        \<and> DnsRecords (options t) (TrimSuffix (Name q) ''.'') = None
        \<and> DnsRecords (options t) ''*'' = None \<longrightarrow>
        snd (ServeDNS L E' (fst (ServeDNS L E t cip r)) cip' r) =
          Log (REQUEST (TypeToString L (Qtype q)) (TrimSuffix (Name q) ''.'') (Opcode r) cip')
          # map RuleCheck (rulesOf t)
          @ [MemoryLookup (TrimSuffix (Name q) ''.''), WildcardLookup,
             CacheGet (Name q @ TypeToString L (Qtype q)),
             WriteMsg (createResponseFromDnsRecord L (fst (ServeDNS L E t cip r)) r (Name q)
                         (extractDnsRecord L msg) (Qtype q)),
             Log (RESPONSE (TypeToString L (Qtype q)) (TrimSuffix (Name q) ''.'') from_cache)])"
proof -
  have encoded: "gobEncode L (extractDnsRecord L msg)
      = Some (gobEncodeDnsRecord W (extractDnsRecord L msg))"
    by (simp add: codec)
  have decoded: "gobDecode L (gobEncodeDnsRecord W (extractDnsRecord L msg))
      = Some (extractDnsRecord L msg)"
    using fits by (simp add: codec gob_round_trip)
  have "goMessage W d \<longrightarrow> gobDecodeDnsRecord W (gobEncodeDnsRecord W d) = Some d"
    by (simp add: gob_round_trip)
  then show ?thesis
    using cache_write_then_read[OF q on hit answers encoded decoded, of E' cip'] decoded
    by blast
qed

theorem gob_cache_round_trip_witness:
  "gobEncode gobLib = (\<lambda>d. Some (gobEncodeDnsRecord sampleTypes d))
   \<and> gobDecode gobLib = gobDecodeDnsRecord sampleTypes
   \<and> Question sampleQuery = [sampleQuestion]
   \<and> UseDiskCache (options sampleServer)
   \<and> successes (snd (ServeDNS gobLib answering sampleServer ''192.0.2.7:5353'' sampleQuery))
       = [sampleUpstreamMsg]
   \<and> Answer sampleUpstreamMsg \<noteq> []
   \<and> goMessage sampleTypes (extractDnsRecord gobLib sampleUpstreamMsg)
   \<and> gobDecodeDnsRecord sampleTypes (gobEncodeDnsRecord sampleTypes sampleRecord)
       = Some sampleRecord
   \<and> cacheSets (snd (ServeDNS gobLib answering sampleServer ''192.0.2.7:5353'' sampleQuery))
       = [(''x.com.A'', gobEncodeDnsRecord sampleTypes sampleRecord)]
   \<and> snd (ServeDNS gobLib timingOut
             (fst (ServeDNS gobLib answering sampleServer ''192.0.2.7:5353'' sampleQuery))
             ''192.0.2.8:4000'' sampleQuery)
       = [Log (REQUEST ''A'' ''x.com'' 0 ''192.0.2.8:4000''),
          MemoryLookup ''x.com'', WildcardLookup, CacheGet ''x.com.A'',
          WriteMsg (createResponseFromDnsRecord gobLib
                      (fst (ServeDNS gobLib answering sampleServer ''192.0.2.7:5353''
                              sampleQuery))
                      sampleQuery ''x.com.'' sampleRecord TypeA),
          Log (RESPONSE ''A'' ''x.com'' from_cache)]"
proof -
  have codec: "gobEncode gobLib = (\<lambda>d. Some (gobEncodeDnsRecord sampleTypes d))"
    "gobDecode gobLib = gobDecodeDnsRecord sampleTypes"
    by (simp_all add: gob_sample_facts)
  have q: "Question sampleQuery = sampleQuestion # []"
    by (simp add: sample_facts)
  have on: "UseDiskCache (options sampleServer)"
    by (simp add: sampleServer_def DefaultOptions_def)
  have hit: "successes (snd (ServeDNS gobLib answering sampleServer ''192.0.2.7:5353''
      sampleQuery)) = [sampleUpstreamMsg]"
    by (rule gob_sample_run)
  have answers: "Answer sampleUpstreamMsg \<noteq> []"
    by (simp add: sample_facts)
  have sized: "goDnsRecord sampleRecord"
    by (simp add: goDnsRecord_def goStrings_def goString_def sampleRecord_def emptyDnsRecord_def)
  have "length (encodeInt (typeId sampleTypes) @ encDnsRecord sampleRecord) = 19"
    by (simp add: sample_encoding sampleTypes_def encodeInt_def encodeUint_def bigEndian.simps)
  then have fits: "goMessage sampleTypes (extractDnsRecord gobLib sampleUpstreamMsg)"
    using sized by (simp add: goMessage_def gob_sample_facts sampleTypes_def)
  have reach: "supported (Qtype sampleQuestion)
      \<and> find (ruleMatches gobLib sampleQuestion) (rulesOf sampleServer) = None
      \<and> DnsRecords (options sampleServer) (TrimSuffix (Name sampleQuestion) ''.'') = None
      \<and> DnsRecords (options sampleServer) ''*'' = None"
    by (simp add: sample_facts rulesOf_def sampleServer_def DefaultOptions_def)
  note run = gob_cache_round_trip[OF codec q on hit answers fits, of sampleRecord timingOut
      "''192.0.2.8:4000''"]
  have readback: "gobDecodeDnsRecord sampleTypes (gobEncodeDnsRecord sampleTypes sampleRecord)
      = Some sampleRecord"
    using run fits by (simp add: gob_sample_facts)
  have sets: "cacheSets (snd (ServeDNS gobLib answering sampleServer ''192.0.2.7:5353''
      sampleQuery)) = [(''x.com.A'', gobEncodeDnsRecord sampleTypes sampleRecord)]"
    using run by (simp add: gob_sample_facts sample_facts)
  have "snd (ServeDNS gobLib timingOut
             (fst (ServeDNS gobLib answering sampleServer ''192.0.2.7:5353'' sampleQuery))
             ''192.0.2.8:4000'' sampleQuery) =
          Log (REQUEST (TypeToString gobLib (Qtype sampleQuestion))
                 (TrimSuffix (Name sampleQuestion) ''.'') (Opcode sampleQuery) ''192.0.2.8:4000'')
          # map RuleCheck (rulesOf sampleServer)
          @ [MemoryLookup (TrimSuffix (Name sampleQuestion) ''.''), WildcardLookup,
             CacheGet (Name sampleQuestion @ TypeToString gobLib (Qtype sampleQuestion)),
             WriteMsg (createResponseFromDnsRecord gobLib
                         (fst (ServeDNS gobLib answering sampleServer ''192.0.2.7:5353''
                                 sampleQuery))
                         sampleQuery (Name sampleQuestion)
                         (extractDnsRecord gobLib sampleUpstreamMsg) (Qtype sampleQuestion)),
             Log (RESPONSE (TypeToString gobLib (Qtype sampleQuestion))
                    (TrimSuffix (Name sampleQuestion) ''.'') from_cache)]"
    using run reach by blast
  then have again: "snd (ServeDNS gobLib timingOut
             (fst (ServeDNS gobLib answering sampleServer ''192.0.2.7:5353'' sampleQuery))
             ''192.0.2.8:4000'' sampleQuery)
       = [Log (REQUEST ''A'' ''x.com'' 0 ''192.0.2.8:4000''),
          MemoryLookup ''x.com'', WildcardLookup, CacheGet ''x.com.A'',
          WriteMsg (createResponseFromDnsRecord gobLib
                      (fst (ServeDNS gobLib answering sampleServer ''192.0.2.7:5353''
                              sampleQuery))
                      sampleQuery ''x.com.'' sampleRecord TypeA),
          Log (RESPONSE ''A'' ''x.com'' from_cache)]"
    by (simp add: gob_sample_facts sample_facts rulesOf_def sampleServer_def Opcode_sampleQuery)
  show ?thesis
    using codec q on hit answers fits readback sets again by blast
qed

subsection \<open>A cache entry that does not decode\<close>

lemma hm_update_irrelevant [simp]:
  "server E (t\<lparr>hm := h\<rparr>) i = server E t i"
  "attemptResult E (t\<lparr>hm := h\<rparr>) i = attemptResult E t i"
  "attempts (t\<lparr>hm := h\<rparr>) = attempts t"
  "failedAttempt E (t\<lparr>hm := h\<rparr>) dl cip rt n = failedAttempt E t dl cip rt n"
  "sendFallbackOrEmpty L (t\<lparr>hm := h\<rparr>) r dl rt why = sendFallbackOrEmpty L t r dl rt why"
  "snd (upstreamSuccess L (t\<lparr>hm := h\<rparr>) r dl rt srv msg) = snd (upstreamSuccess L t r dl rt srv msg)"
  by (simp_all add: server_def attemptResult_def attempts_def failedAttempt_def fun_eq_iff
      sendFallbackOrEmpty_def upstreamSuccess_def Let_def split: option.splits list.splits)

lemma forwardToUpstream_trace_hm:
  "snd (forwardToUpstream L E (t\<lparr>hm := h\<rparr>) r dl cip rt) = snd (forwardToUpstream L E t r dl cip rt)"
proof (cases rule: forwardToUpstream_cases[of t L E r dl cip rt])
  case no_servers
  then show ?thesis
    by (simp add: forwardToUpstream_def)
next
  case all_fail
  have "forwardToUpstream L E (t\<lparr>hm := h\<rparr>) r dl cip rt =
     (t\<lparr>hm := h\<rparr>, concat (map (failedAttempt E (t\<lparr>hm := h\<rparr>) dl cip rt (attempts t)) [0..attempts t - 1])
         @ [Log (ERROR_all_failed rt dl (attempts t) (snd (attemptResult E (t\<lparr>hm := h\<rparr>) (attempts t - 1))))]
         @ sendFallbackOrEmpty L (t\<lparr>hm := h\<rparr>) r dl rt
             (upstream_failed (snd (attemptResult E (t\<lparr>hm := h\<rparr>) (attempts t - 1)))))"
    using all_fail(1,2) by (intro forwardToUpstream_all_fail) (simp_all add: attempts_def)
  then show ?thesis
    by (simp add: all_fail(3))
next
  case (success k msg)
  have "forwardToUpstream L E (t\<lparr>hm := h\<rparr>) r dl cip rt =
     after (concat (map (failedAttempt E (t\<lparr>hm := h\<rparr>) dl cip rt (attempts t)) [0..k - 1])
            @ [Log (FORWARD rt dl (server E (t\<lparr>hm := h\<rparr>) k) cip (k + 1) (attempts t)),
               Exchange k (server E (t\<lparr>hm := h\<rparr>) k) (attemptResult E (t\<lparr>hm := h\<rparr>) k)])
       (upstreamSuccess L (t\<lparr>hm := h\<rparr>) r dl rt (server E (t\<lparr>hm := h\<rparr>) k) msg)"
    using success(1-5) by (intro forwardToUpstream_first_success) (simp_all add: attempts_def)
  then show ?thesis
    by (simp add: success(6) after_def)
qed

text \<open>
  C9: when a query reaches the cache tier (no record for the name or for \<open>*\<close>, the cache
  on) and the bytes stored under its key do not decode, the handler goes on to
  \<open>forwardToUpstream\<close>; its events are those of the run in which the key is absent; it does
  not panic; and the message it sends is the upstream answer or, failing that, the
  fallback message.
\<close>

theorem undecodable_entry_is_a_miss:
  assumes q: "Question r = q # qs"
    and reach: "DnsRecords (options t) dl = None" "DnsRecords (options t) ''*'' = None"
      "UseDiskCache (options t)"
    and stored: "hm t (Name q @ rt) = Some b"
    and bad: "gobDecode L b = None"
  shows "handleDNSQuery L E t r dl cip rt qtype
       = after [MemoryLookup dl, WildcardLookup, CacheGet (Name q @ rt)]
           (forwardToUpstream L E t r dl cip rt)
     \<and> snd (handleDNSQuery L E t r dl cip rt qtype)
       = snd (handleDNSQuery L E (t\<lparr>hm := (hm t)(Name q @ rt := None)\<rparr>) r dl cip rt qtype)
     \<and> Panic \<notin> set (snd (handleDNSQuery L E t r dl cip rt qtype))
     \<and> written (snd (handleDNSQuery L E t r dl cip rt qtype))
       = [case upstreamAnswer E t of Some m \<Rightarrow> m | None \<Rightarrow> fallbackAnswer L t r q]"
proof -
  have run: "handleDNSQuery L E t r dl cip rt qtype
       = after [MemoryLookup dl, WildcardLookup, CacheGet (Name q @ rt)]
           (forwardToUpstream L E t r dl cip rt)"
    using reach stored bad by (simp add: handleDNSQuery_def q Let_def after_def)
  have miss: "handleDNSQuery L E (t\<lparr>hm := (hm t)(Name q @ rt := None)\<rparr>) r dl cip rt qtype
       = after [MemoryLookup dl, WildcardLookup, CacheGet (Name q @ rt)]
           (forwardToUpstream L E (t\<lparr>hm := (hm t)(Name q @ rt := None)\<rparr>) r dl cip rt)"
    using reach by (simp add: handleDNSQuery_def q Let_def after_def)
  show ?thesis
    using forwardToUpstream_no_Panic[OF q, of L E t dl cip rt]
    by (simp add: run miss after_def forwardToUpstream_trace_hm forwardToUpstream_written[OF q])
qed

theorem undecodable_entry_is_a_miss_witness:
  "Question sampleQuery = [sampleQuestion]
   \<and> DnsRecords (options staleServer) ''x.com'' = None
   \<and> DnsRecords (options staleServer) ''*'' = None
   \<and> UseDiskCache (options staleServer)
   \<and> hm staleServer (Name sampleQuestion @ ''A'') = Some [0]
   \<and> gobDecode sampleLib [0] = None
   \<and> snd (handleDNSQuery sampleLib answering staleServer sampleQuery ''x.com''
             ''192.0.2.7:5353'' ''A'' TypeA)
       = snd (handleDNSQuery sampleLib answering
                (staleServer\<lparr>hm := (hm staleServer)(Name sampleQuestion @ ''A'' := None)\<rparr>)
                sampleQuery ''x.com'' ''192.0.2.7:5353'' ''A'' TypeA)
   \<and> Panic \<notin> set (snd (handleDNSQuery sampleLib answering staleServer sampleQuery ''x.com''
                           ''192.0.2.7:5353'' ''A'' TypeA))
   \<and> written (snd (handleDNSQuery sampleLib answering staleServer sampleQuery ''x.com''
                     ''192.0.2.7:5353'' ''A'' TypeA))
       = [sampleUpstreamMsg]"
proof -
  have q: "Question sampleQuery = sampleQuestion # []"
    by (simp add: sample_facts)
  have reach: "DnsRecords (options staleServer) ''x.com'' = None"
    "DnsRecords (options staleServer) ''*'' = None"
    "UseDiskCache (options staleServer)"
    by (simp_all add: staleServer_def sampleServer_def DefaultOptions_def)
  have stored: "hm staleServer (Name sampleQuestion @ ''A'') = Some [0]"
    by (simp add: staleServer_def sample_facts)
  have bad: "gobDecode sampleLib [0] = None"
    by (simp add: sample_facts)
  have up: "upstreamAnswer answering staleServer = Some sampleUpstreamMsg"
    by (simp add: upstreamAnswer_def attempts_def attemptResult_def answering_def
        staleServer_def sampleServer_def DefaultOptions_def upto_rec1)
  note run = undecodable_entry_is_a_miss[OF q reach stored bad, of answering
      "''192.0.2.7:5353''" TypeA]
  have same: "snd (handleDNSQuery sampleLib answering staleServer sampleQuery ''x.com''
             ''192.0.2.7:5353'' ''A'' TypeA)
       = snd (handleDNSQuery sampleLib answering
                (staleServer\<lparr>hm := (hm staleServer)(Name sampleQuestion @ ''A'' := None)\<rparr>)
                sampleQuery ''x.com'' ''192.0.2.7:5353'' ''A'' TypeA)"
    using run by blast
  have safe: "Panic \<notin> set (snd (handleDNSQuery sampleLib answering staleServer sampleQuery
                           ''x.com'' ''192.0.2.7:5353'' ''A'' TypeA))"
    using run by blast
  have "written (snd (handleDNSQuery sampleLib answering staleServer sampleQuery ''x.com''
                     ''192.0.2.7:5353'' ''A'' TypeA))
       = [case upstreamAnswer answering staleServer of
            Some m \<Rightarrow> m
          | None \<Rightarrow> fallbackAnswer sampleLib staleServer sampleQuery sampleQuestion]"
    using run by blast
  then have sent: "written (snd (handleDNSQuery sampleLib answering staleServer sampleQuery
                     ''x.com'' ''192.0.2.7:5353'' ''A'' TypeA)) = [sampleUpstreamMsg]"
    by (simp add: up)
  show ?thesis
    using q reach stored bad same safe sent by blast
qed

end
